theory Spec2Isabelle
  imports Main "HOL-Library.Sublist"
begin

unbundle bit_operations_syntax

section \<open>Bytes, C strings and the tag record\<close>

text \<open>
  A byte is a \<^typ>\<open>char\<close> (eight bits), a file's contents and a \<open>char\<close> buffer are a
  \<^typ>\<open>string\<close>. A \<open>const char *\<close> parameter (a file name, a field name, a field of
  \<open>TagData\<close>) is modelled by the characters before its terminator. A buffer that was
  filled from a file may hold NUL bytes anywhere; the C string it denotes is \<open>c_str\<close>
  of it, which is what \<open>strdup\<close>, \<open>strlen\<close> and \<open>strcmp\<close> see.

  The C \<open>int\<close> is 32 bits wide and \<open>size_t\<close> 64 bits. The reader computes a frame size
  from bytes of the file; where that computation leaves the range of \<open>int\<close> it wraps, as
  the compiled program does. The writer takes the length of a value with \<open>strlen\<close>; a
  value longer than \<open>INT_MAX\<close> bytes does not fit \<open>int content_size\<close>, and the model
  gives the write no result then (\<open>None\<close>). Allocation (\<open>malloc\<close>, \<open>strdup\<close>) is
  taken to succeed unless the request is beyond any allocator. Storing beyond an
  allocated block has no result either.
\<close>

definition NUL :: char where
  "NUL = CHR 0x00"

definition INT_MAX :: nat where
  "INT_MAX = 2147483647"

definition c_str :: "string \<Rightarrow> string" where
  "c_str buf = takeWhile (\<lambda>c. c \<noteq> NUL) buf"

text \<open>\<open>id3_utils.h\<close>: \<open>TagData\<close>; a \<open>NULL\<close> field is \<open>None\<close>.\<close>

record TagData =
  version :: "string option"
  title :: "string option"
  artist :: "string option"
  album :: "string option"
  year :: "string option"
  comment :: "string option"
  genre :: "string option"

text \<open>\<open>id3_utils.c\<close>: \<open>create_tag_data\<close>.\<close>

definition create_tag_data :: TagData where
  "create_tag_data = \<lparr>version = None, title = None, artist = None, album = None,
     year = None, comment = None, genre = None\<rparr>"

section \<open>The file system\<close>

text \<open>
  A path leads to a directory entry, a directory entry names a file, and a file has
  contents. Which entry a path leads to is part of the world (\<open>entry\<close>): different
  spellings of a path, such as \<open>temp.mp3\<close> and \<open>./temp.mp3\<close>, lead to one entry. Two
  entries may name one file (hard links). A file that a stream was opened on stays
  readable through the stream when its entry is removed.

  Symbolic links are not told apart from other spellings: a path that is a symbolic link
  leads to the entry the link leads to, which is what \<open>fopen\<close> does with it.
  \<open>remove\<close> and \<open>rename\<close> act on the link itself; the model lets them act on that
  entry too, which gives the same contents under the path of the call and may differ
  under the other paths that lead to the entry.

  Whether the operating system lets a call through is part of the world as well:
  \<open>may_open\<close> for \<open>fopen(path, "rb")\<close>, \<open>may_create\<close> for \<open>fopen(path, "wb+")\<close>,
  \<open>may_remove\<close> for \<open>remove\<close> and \<open>may_rename\<close> for \<open>rename\<close>.

  The world also records, in \<open>calls\<close>, every call that reaches a file by its name, in
  the order the calls are made and whether or not they succeed. A stream is read or
  written only after the \<open>fopen\<close> that made it, so a run that adds nothing to
  \<open>calls\<close> has done no file input or output.
\<close>

datatype file_id =
    Initial string  \<comment> \<open>a file of the initial world\<close>
  | Created nat     \<comment> \<open>the n-th file created since\<close>

datatype sys_call =
    OpenRead string       \<comment> \<open>\<open>fopen(path, "rb")\<close>\<close>
  | OpenWrite string      \<comment> \<open>\<open>fopen(path, "wb+")\<close>\<close>
  | Remove string         \<comment> \<open>\<open>remove(path)\<close>\<close>
  | Rename string string  \<comment> \<open>\<open>rename(old, new)\<close>\<close>

record world =
  entry :: "string \<Rightarrow> string"
  dir :: "string \<rightharpoonup> file_id"
  contents :: "file_id \<Rightarrow> string"
  created :: nat
  may_open :: "string \<Rightarrow> bool"
  may_create :: "string \<Rightarrow> bool"
  may_remove :: "string \<Rightarrow> bool"
  may_rename :: "string \<Rightarrow> string \<Rightarrow> bool"
  calls :: "sys_call list"

definition call :: "world \<Rightarrow> sys_call \<Rightarrow> world" where
  "call w c = w\<lparr>calls := calls w @ [c]\<rparr>"

text \<open>The contents found under a path, if it leads to a file.\<close>

definition files :: "world \<Rightarrow> string \<Rightarrow> string option" where
  "files w path = map_option (contents w) (dir w (entry w path))"

text \<open>
  \<open>fopen(path, "rb")\<close>: the file the stream is on, and (for a reader that opens and
  reads with nothing in between) the bytes the stream delivers.
\<close>

definition open_file :: "world \<Rightarrow> string \<Rightarrow> file_id option" where
  "open_file w path = (if may_open w path then dir w (entry w path) else None)"

definition fopen_rb :: "world \<Rightarrow> string \<Rightarrow> string option" where
  "fopen_rb w path = map_option (contents w) (open_file w path)"

text \<open>
  \<open>fopen(path, "wb+")\<close>: the file the stream is on and the world afterwards. A file
  that exists under the entry is emptied, whatever other path or entry leads to it;
  otherwise a new, empty file is made under the entry. \<open>created\<close> counts the files
  made so far, so that the new file is none of those made before.
\<close>

definition wb_file :: "world \<Rightarrow> string \<Rightarrow> file_id" where
  "wb_file w path =
     (case dir w (entry w path) of Some i \<Rightarrow> i | None \<Rightarrow> Created (created w))"

definition wb_world :: "world \<Rightarrow> string \<Rightarrow> world" where
  "wb_world w path =
     w\<lparr>dir := (dir w)(entry w path \<mapsto> wb_file w path),
       contents := (contents w)(wb_file w path := []),
       created := (if dir w (entry w path) = None then Suc (created w) else created w)\<rparr>"

definition fopen_wb :: "world \<Rightarrow> string \<Rightarrow> (file_id \<times> world) option" where
  "fopen_wb w path =
     (if may_create w path then Some (wb_file w path, wb_world w path) else None)"

text \<open>What has been written to a stream opened with \<open>"wb+"\<close>, when it is closed.\<close>

definition written :: "world \<Rightarrow> file_id \<Rightarrow> string \<Rightarrow> world" where
  "written w fp bs = w\<lparr>contents := (contents w)(fp := bs)\<rparr>"

text \<open>\<open>remove(path)\<close>: the entry goes, the file stays for whoever else has it.\<close>

definition unlinked :: "world \<Rightarrow> string \<Rightarrow> world" where
  "unlinked w path = w\<lparr>dir := (dir w)(entry w path := None)\<rparr>"

definition remove_file :: "world \<Rightarrow> string \<Rightarrow> world option" where
  "remove_file w path =
     (if may_remove w path \<and> dir w (entry w path) \<noteq> None then Some (unlinked w path)
      else None)"

text \<open>
  \<open>rename(old, new)\<close>: the file under \<open>old\<close> is put under \<open>new\<close>; nothing happens
  when both already name the same file.
\<close>

definition rename_file :: "world \<Rightarrow> string \<Rightarrow> string \<Rightarrow> world option" where
  "rename_file w old new =
     (if \<not> may_rename w old new then None
      else case dir w (entry w old) of
        None \<Rightarrow> None
      | Some i \<Rightarrow>
          if dir w (entry w new) = Some i then Some w
          else Some (w\<lparr>dir := ((dir w)(entry w old := None))(entry w new \<mapsto> i)\<rparr>))"

text \<open>The messages handed to \<open>display_error\<close>, one constructor each.\<close>

datatype error =
    NotMp3File          \<comment> \<open>File does not appear to be an MP3 file.\<close>
  | CannotOpenFile      \<comment> \<open>Cannot open file for reading.\<close>
  | HeaderReadFailed    \<comment> \<open>Failed to read ID3 header.\<close>
  | NoID3Tag            \<comment> \<open>No ID3 tag found.\<close>
  | CannotOpenOriginal  \<comment> \<open>Cannot open original file for reading.\<close>
  | CannotOpenTemp      \<comment> \<open>Cannot open temporary file for writing.\<close>
  | RemoveFailed        \<comment> \<open>Failed to remove original file.\<close>
  | RenameFailed        \<comment> \<open>Failed to rename temporary file.\<close>
  | FailedToReadTags error  \<comment> \<open>Failed to read tags for editing. (after the reader's message)\<close>
  | UnknownTag          \<comment> \<open>Unknown tag.\<close>

text \<open>\<open>fread(buf, 1, n, fp)\<close> at offset \<open>pos\<close>: the bytes it delivers.\<close>

definition fread :: "string \<Rightarrow> nat \<Rightarrow> nat \<Rightarrow> string" where
  "fread fp pos n = take n (drop pos fp)"

section \<open>The format validator\<close>

text \<open>\<open>strrchr\<close>: the rest of the string from the last occurrence of the character.\<close>

fun strrchr :: "string \<Rightarrow> char \<Rightarrow> string option" where
  "strrchr [] c = None"
| "strrchr (x # xs) c =
     (case strrchr xs c of
        Some r \<Rightarrow> Some r
      | None \<Rightarrow> if x = c then Some (x # xs) else None)"

text \<open>\<open>error_handling.c\<close>: \<open>check_id3_tag_presence\<close>.\<close>

definition check_id3_tag_presence :: "string \<Rightarrow> bool" where
  "check_id3_tag_presence filename =
     (case strrchr filename (CHR ''.'') of
        None \<Rightarrow> False
      | Some ext \<Rightarrow> ext = ''.mp3'')"

section \<open>The reader\<close>

text \<open>The sync-safe size in bytes 6 to 9 of the header.\<close>

definition tag_size :: "string \<Rightarrow> nat" where
  "tag_size header =
     push_bit 21 (of_char (header ! 6) AND 0x7F) OR
     push_bit 14 (of_char (header ! 7) AND 0x7F) OR
     push_bit 7 (of_char (header ! 8) AND 0x7F) OR
     (of_char (header ! 9) AND 0x7F)"

text \<open>\<open>%d\<close> of a value that is not negative.\<close>

fun dec :: "nat \<Rightarrow> string" where
  "dec n = (if n < 10 then [char_of (48 + n)]
            else dec (n div 10) @ [char_of (48 + n mod 10)])"

declare dec.simps [simp del]

text \<open>
  \<open>snprintf(verStr, sizeof(verStr), "ID3v2.%d.%d", header[3], header[4])\<close> with
  \<open>char verStr[10]\<close>: at most nine characters are kept.
\<close>

definition version_string :: "char \<Rightarrow> char \<Rightarrow> string" where
  "version_string major minor =
     take 9 (''ID3v2.'' @ dec (of_char major) @ ''.'' @ dec (of_char minor))"

text \<open>
  An \<open>int\<close> result that leaves the range of \<open>int\<close> keeps its low 32 bits, read in two's
  complement: this is what the compiled program computes for a shift into the sign bit
  and for \<open>INT_MAX + 1\<close>.
\<close>

definition int32 :: "int \<Rightarrow> int" where
  "int32 k =
     (if k mod 4294967296 < 2147483648 then k mod 4294967296
      else k mod 4294967296 - 4294967296)"

text \<open>
  The frame size, big-endian in four bytes. It is negative when the first byte is 128 or
  more.
\<close>

definition frame_size :: "string \<Rightarrow> int" where
  "frame_size sizeBytes =
     int32 (push_bit 24 (of_char (sizeBytes ! 0)) OR
            push_bit 16 (of_char (sizeBytes ! 1)) OR
            push_bit 8 (of_char (sizeBytes ! 2)) OR
            of_char (sizeBytes ! 3))"

text \<open>
  \<open>malloc\<close> and \<open>fread\<close> take a size as a \<open>size_t\<close> of 64 bits. A negative \<open>int\<close>
  becomes a request of more than \<open>2^63\<close> bytes, which no allocator grants: \<open>malloc\<close>
  returns \<open>NULL\<close>. Every other request is taken to succeed, with a block of exactly the
  bytes asked for.
\<close>

definition size_t :: "int \<Rightarrow> nat" where
  "size_t n = nat (n mod 18446744073709551616)"

definition malloc_null :: "int \<Rightarrow> bool" where
  "malloc_null request \<longleftrightarrow> request < 0"

text \<open>The chain of \<open>strcmp\<close> on the frame id; \<open>content\<close> is the buffer read from the file.\<close>

definition store_frame :: "string \<Rightarrow> string \<Rightarrow> TagData \<Rightarrow> TagData" where
  "store_frame frameId content data =
     (if c_str frameId = ''TIT2'' then data\<lparr>title := Some (c_str content)\<rparr>
      else if c_str frameId = ''TPE1'' then data\<lparr>artist := Some (c_str content)\<rparr>
      else if c_str frameId = ''TALB'' then data\<lparr>album := Some (c_str content)\<rparr>
      else if c_str frameId = ''TYER'' then data\<lparr>year := Some (c_str content)\<rparr>
      else if c_str frameId = ''COMM'' then data\<lparr>comment := Some (c_str content)\<rparr>
      else if c_str frameId = ''TCON'' then data\<lparr>genre := Some (c_str content)\<rparr>
      else data)"

text \<open>
  The \<open>while (ftell(fp) < tagEnd)\<close> loop of \<open>read_id3_tags\<close>, with what it does to a
  complete frame as a parameter. \<open>pos\<close> is \<open>ftell(fp)\<close> at the head of the loop. A
  \<open>break\<close> returns what has been accumulated: after a short read of the frame header,
  at a frame id that starts with a zero byte, when \<open>malloc(frameSize + 1)\<close> returns
  \<open>NULL\<close> (a frame size below -1, or \<open>INT_MAX\<close>, whose successor wraps), and after a
  short read of the body.

  \<open>fread(content, 1, frameSize, fp)\<close> stores the bytes it delivers in the block of
  \<open>frameSize + 1\<close> bytes. For the frame size -1 (size bytes \<open>FF FF FF FF\<close>) the block
  has no bytes and the count is \<open>2^64 - 1\<close>: all that is left of the file is stored
  beyond the block. Nothing is defined after that, and the loop has no result (\<open>None\<close>),
  unless the file ends with the frame header; this is the only way the loop has no
  result.
\<close>

function frame_loop ::
  "(string \<Rightarrow> string \<Rightarrow> 'a \<Rightarrow> 'a) \<Rightarrow> string \<Rightarrow> nat \<Rightarrow> nat \<Rightarrow> 'a \<Rightarrow> 'a option" where
  "frame_loop act fp tagEnd pos acc =
     (if \<not> pos < tagEnd then Some acc
      else if length (fread fp pos 4) \<noteq> 4 then Some acc
      else if length (fread fp (pos + 4) 4) \<noteq> 4 then Some acc
      else if length (fread fp (pos + 8) 2) \<noteq> 2 then Some acc
      else if fread fp pos 4 ! 0 = NUL then Some acc
      else
        let frameSize = frame_size (fread fp (pos + 4) 4);
            content = fread fp (pos + 10) (size_t frameSize)
        in if malloc_null (int32 (frameSize + 1)) then Some acc
           else if size_t (int32 (frameSize + 1)) < length content then None
           else if length content \<noteq> size_t frameSize then Some acc
           else frame_loop act fp tagEnd (pos + 10 + size_t frameSize)
                  (act (fread fp pos 4) content acc))"
  by pat_completeness auto
termination
  by (relation "measure (\<lambda>(act, fp, tagEnd, pos, acc). length fp - pos)")
     (auto simp: fread_def)

declare frame_loop.simps [simp del]

definition parse_frames :: "string \<Rightarrow> nat \<Rightarrow> nat \<Rightarrow> TagData \<Rightarrow> TagData option" where
  "parse_frames = frame_loop store_frame"

text \<open>The frames the loop reads completely, in the order it reads them: id and body.\<close>

definition frames_read :: "string \<Rightarrow> nat \<Rightarrow> nat \<Rightarrow> (string \<times> string) list option" where
  "frames_read fp tagEnd pos = frame_loop (\<lambda>frameId content fs. fs @ [(frameId, content)]) fp tagEnd pos []"

text \<open>
  \<open>id3_reader.c\<close>: \<open>read_id3_tags\<close>. \<open>Inl\<close> is the \<open>NULL\<close> return with its
  message; the second component is the world afterwards.
\<close>

definition read_id3_tags :: "world \<Rightarrow> string \<Rightarrow> ((error + TagData) \<times> world) option" where
  "read_id3_tags w filename =
     (if \<not> check_id3_tag_presence filename then Some (Inl NotMp3File, w)
      else
        let w1 = call w (OpenRead filename)
        in case fopen_rb w filename of
          None \<Rightarrow> Some (Inl CannotOpenFile, w1)
        | Some fp \<Rightarrow>
            if length (fread fp 0 10) \<noteq> 10 then Some (Inl HeaderReadFailed, w1)
            else if take 3 (fread fp 0 10) \<noteq> ''ID3'' then Some (Inl NoID3Tag, w1)
            else map_option (\<lambda>data. (Inr data, w1))
                   (parse_frames fp (10 + tag_size (fread fp 0 10)) 10
                      (create_tag_data\<lparr>version :=
                         Some (version_string (fread fp 0 10 ! 3) (fread fp 0 10 ! 4))\<rparr>)))"

section \<open>The writer\<close>

text \<open>The four size bytes of \<open>write_frame\<close>.\<close>

definition size_bytes :: "nat \<Rightarrow> string" where
  "size_bytes content_size =
     [char_of (drop_bit 24 content_size AND 0xFF),
      char_of (drop_bit 16 content_size AND 0xFF),
      char_of (drop_bit 8 content_size AND 0xFF),
      char_of (content_size AND 0xFF)]"

text \<open>
  \<open>id3_writer.c\<close>: \<open>write_frame\<close>, on the bytes written to the stream so far.
  \<open>int content_size = strlen(content)\<close> is defined up to \<open>INT_MAX\<close>.
\<close>

definition frame_bytes :: "string \<Rightarrow> string \<Rightarrow> string" where
  "frame_bytes frame_id s =
     take 4 frame_id @ size_bytes (length s) @ [NUL, NUL] @ take (length s) s"

definition write_frame :: "string \<Rightarrow> string \<Rightarrow> string option \<Rightarrow> string option" where
  "write_frame fp frame_id content =
     (case content of
        None \<Rightarrow> Some fp
      | Some s \<Rightarrow>
          if INT_MAX < length s then None
          else Some (fp @ frame_bytes frame_id s))"

text \<open>The copy loop after \<open>fseek(fp_orig, 300, SEEK_SET)\<close>, 1024 bytes at a time.\<close>

function copy_loop :: "string \<Rightarrow> nat \<Rightarrow> string \<Rightarrow> string" where
  "copy_loop fp_orig pos fp_temp =
     (if 0 < length (fread fp_orig pos 1024)
      then copy_loop fp_orig (pos + length (fread fp_orig pos 1024))
             (fp_temp @ fread fp_orig pos 1024)
      else fp_temp)"
  by pat_completeness auto
termination
  by (relation "measure (\<lambda>(fp_orig, pos, fp_temp). length fp_orig - pos)")
     (auto simp: fread_def)

declare copy_loop.simps [simp del]

definition temp_name :: string where
  "temp_name = ''temp.mp3''"

text \<open>The six calls of \<open>write_frame\<close>, in the order of the source.\<close>

definition write_frames :: "string \<Rightarrow> TagData \<Rightarrow> string option" where
  "write_frames fp_temp data =
     Option.bind (write_frame fp_temp ''TIT2'' (title data)) (\<lambda>t1.
     Option.bind (write_frame t1 ''TPE1'' (artist data)) (\<lambda>t2.
     Option.bind (write_frame t2 ''TALB'' (album data)) (\<lambda>t3.
     Option.bind (write_frame t3 ''TYER'' (year data)) (\<lambda>t4.
     Option.bind (write_frame t4 ''COMM'' (comment data)) (\<lambda>t5.
     write_frame t5 ''TCON'' (genre data))))))"

text \<open>
  \<open>id3_writer.c\<close>: \<open>write_id3_tags\<close>. The result is the return value (\<open>Inr ()\<close> for 0,
  \<open>Inl\<close> for -1 with its message) and the world afterwards. The original is read
  through its stream in the world as it is after the temporary file has been opened:
  when both streams are on one file, that file has just been emptied and the read of the
  header is short. Past that read the streams are on two files, and what is written to
  one is not read from the other.
\<close>

definition write_id3_tags :: "world \<Rightarrow> string \<Rightarrow> TagData \<Rightarrow> ((error + unit) \<times> world) option" where
  "write_id3_tags w filename data =
     (if \<not> check_id3_tag_presence filename then Some (Inl NotMp3File, w)
      else
        let wo = call w (OpenRead filename)
        in case open_file w filename of
          None \<Rightarrow> Some (Inl CannotOpenOriginal, wo)
        | Some fp_orig \<Rightarrow>
            let wc = call wo (OpenWrite temp_name)
            in case fopen_wb wc temp_name of
              None \<Rightarrow> Some (Inl CannotOpenTemp, wc)
            | Some (fp_temp, w1) \<Rightarrow>
                let header = fread (contents w1 fp_orig) 0 10
                in if length header \<noteq> 10 then Some (Inl HeaderReadFailed, w1)
                   else case write_frames header data of
                     None \<Rightarrow> None
                   | Some framed \<Rightarrow>
                       let w2 = call (written w1 fp_temp
                                        (copy_loop (contents w1 fp_orig) 300 framed))
                                  (Remove filename)
                       in case remove_file w2 filename of
                         None \<Rightarrow> Some (Inl RemoveFailed, w2)
                       | Some w3 \<Rightarrow>
                           let w4 = call w3 (Rename temp_name filename)
                           in case rename_file w4 temp_name filename of
                             None \<Rightarrow> Some (Inl RenameFailed, w4)
                           | Some w5 \<Rightarrow> Some (Inr (), w5))"

text \<open>\<open>id3_writer.c\<close>: \<open>edit_tag\<close>.\<close>

definition edit_tag :: "world \<Rightarrow> string \<Rightarrow> string \<Rightarrow> string \<Rightarrow> ((error + unit) \<times> world) option" where
  "edit_tag w filename tag val =
     (case read_id3_tags w filename of
        None \<Rightarrow> None
      | Some (Inl e, w1) \<Rightarrow> Some (Inl (FailedToReadTags e), w1)
      | Some (Inr data, w1) \<Rightarrow>
          if tag = ''title'' then write_id3_tags w1 filename (data\<lparr>title := Some val\<rparr>)
          else if tag = ''artist'' then write_id3_tags w1 filename (data\<lparr>artist := Some val\<rparr>)
          else if tag = ''album'' then write_id3_tags w1 filename (data\<lparr>album := Some val\<rparr>)
          else if tag = ''year'' then write_id3_tags w1 filename (data\<lparr>year := Some val\<rparr>)
          else if tag = ''comment'' then write_id3_tags w1 filename (data\<lparr>comment := Some val\<rparr>)
          else if tag = ''genre'' then write_id3_tags w1 filename (data\<lparr>genre := Some val\<rparr>)
          else Some (Inl UnknownTag, w1))"

section \<open>Notions used to state the properties\<close>

text \<open>The lengths of the fields that are present fit an \<open>int\<close>.\<close>

definition field_fits :: "string option \<Rightarrow> bool" where
  "field_fits content = (case content of None \<Rightarrow> True | Some s \<Rightarrow> length s \<le> INT_MAX)"

definition tag_fits :: "TagData \<Rightarrow> bool" where
  "tag_fits data \<longleftrightarrow> field_fits (title data) \<and> field_fits (artist data) \<and>
     field_fits (album data) \<and> field_fits (year data) \<and> field_fits (comment data) \<and>
     field_fits (genre data)"

text \<open>
  The frame as the specification words it: the four-byte id, the byte count of the value
  big-endian in four bytes, two zero flag bytes, the bytes of the value; nothing for a
  field that is absent. \<open>be_value\<close> reads a big-endian byte sequence back.
\<close>

definition big_endian32 :: "nat \<Rightarrow> string" where
  "big_endian32 n =
     [char_of (n div 16777216 mod 256), char_of (n div 65536 mod 256),
      char_of (n div 256 mod 256), char_of (n mod 256)]"

definition be_value :: "string \<Rightarrow> nat" where
  "be_value bs = foldl (\<lambda>a c. a * 256 + of_char c) 0 bs"

definition spec_frame :: "string \<Rightarrow> string option \<Rightarrow> string" where
  "spec_frame frame_id content =
     (case content of
        None \<Rightarrow> []
      | Some v \<Rightarrow> frame_id @ big_endian32 (length v) @ [CHR 0x00, CHR 0x00] @ v)"

text \<open>
  The file after a write as the specification words it: the first ten bytes of the
  original, the frames of the fields in the fixed order, the original from offset 300.
\<close>

definition rewritten :: "string \<Rightarrow> TagData \<Rightarrow> string" where
  "rewritten orig data =
     take 10 orig @
     spec_frame ''TIT2'' (title data) @ spec_frame ''TPE1'' (artist data) @
     spec_frame ''TALB'' (album data) @ spec_frame ''TYER'' (year data) @
     spec_frame ''COMM'' (comment data) @ spec_frame ''TCON'' (genre data) @
     drop 300 orig"

text \<open>
  The world after the two \<open>fopen\<close> calls of the writer, and the world after a write
  that has put \<open>out\<close> in the place of the file: the entry of the file names the file
  that was opened as the temporary one, which holds \<open>out\<close>; the entry of the temporary
  file is gone; the four calls are on record.
\<close>

definition opened :: "world \<Rightarrow> string \<Rightarrow> world" where
  "opened w filename = call (call w (OpenRead filename)) (OpenWrite temp_name)"

definition replaced :: "world \<Rightarrow> string \<Rightarrow> string \<Rightarrow> world" where
  "replaced w filename out =
     w\<lparr>dir := ((dir w)(entry w temp_name := None))(entry w filename \<mapsto> wb_file w temp_name),
       contents := (contents w)(wb_file w temp_name := out),
       created := (if dir w (entry w temp_name) = None then Suc (created w) else created w),
       calls := calls w @ [OpenRead filename, OpenWrite temp_name, Remove filename,
                          Rename temp_name filename]\<rparr>"

text \<open>The six frame ids the reader knows.\<close>

definition known_ids :: "string set" where
  "known_ids = {''TIT2'', ''TPE1'', ''TALB'', ''TYER'', ''COMM'', ''TCON''}"

text \<open>The field of the record that belongs to a frame id.\<close>

definition field_of :: "string \<Rightarrow> TagData \<Rightarrow> string option" where
  "field_of frameId data =
     (if frameId = ''TIT2'' then title data
      else if frameId = ''TPE1'' then artist data
      else if frameId = ''TALB'' then album data
      else if frameId = ''TYER'' then year data
      else if frameId = ''COMM'' then comment data
      else if frameId = ''TCON'' then genre data
      else None)"

section \<open>A world without operating-system failures\<close>

text \<open>
  The world that holds the files \<open>fs\<close>, each under the one path that is its entry;
  every call is let through and none has been made. Used to run the operations on
  concrete files.
\<close>

definition plain_world :: "(string \<rightharpoonup> string) \<Rightarrow> world" where
  "plain_world fs =
     \<lparr>entry = (\<lambda>path. path),
      dir = (\<lambda>e. map_option (\<lambda>_. Initial e) (fs e)),
      contents = (\<lambda>i. case i of
                         Initial e \<Rightarrow> (case fs e of Some bs \<Rightarrow> bs | None \<Rightarrow> [])
                       | Created n \<Rightarrow> []),
      created = 0,
      may_open = (\<lambda>_. True), may_create = (\<lambda>_. True),
      may_remove = (\<lambda>_. True), may_rename = (\<lambda>_ _. True), calls = []\<rparr>"

text \<open>
  Two worlds in which a second path leads to the file \<open>temp.mp3\<close>: by another spelling
  of the path, and by an entry of its own (a hard link).
\<close>

definition respelled_world :: "(string \<rightharpoonup> string) \<Rightarrow> world" where
  "respelled_world fs =
     (plain_world fs)\<lparr>entry := (\<lambda>path. if path = ''./temp.mp3'' then ''temp.mp3'' else path)\<rparr>"

definition linked_world :: "(string \<rightharpoonup> string) \<Rightarrow> world" where
  "linked_world fs =
     (plain_world fs)\<lparr>dir := (dir (plain_world fs))(''link.mp3'' \<mapsto> Initial ''temp.mp3'')\<rparr>"

definition audio_file :: string where
  "audio_file = replicate 300 (CHR ''h'') @ ''AUDIO''"

definition two_field_tag :: TagData where
  "two_field_tag = create_tag_data\<lparr>title := Some ''Hi'', genre := Some ''Rock''\<rparr>"

definition hello_file :: string where
  "hello_file =
     ''ID3'' @ [CHR 0x03, CHR 0x00, CHR 0x00, CHR 0x00, CHR 0x00, CHR 0x00, CHR 0x23] @
     ''TIT2'' @ [CHR 0x00, CHR 0x00, CHR 0x00, CHR 0x05] @ [CHR 0x00, CHR 0x00] @ ''Hello'' @
     replicate 20 (CHR 0x00)"

text \<open>Files and records for the concrete runs.\<close>

definition skip_file :: string where
  "skip_file =
     ''ID3'' @ [CHR 0x03, CHR 0x00, CHR 0x00, CHR 0x00, CHR 0x00, CHR 0x00, CHR 0x1C] @
     ''XYYZ'' @ [CHR 0x00, CHR 0x00, CHR 0x00, CHR 0x03] @ [CHR 0x00, CHR 0x00] @ ''abc'' @
     ''TIT2'' @ [CHR 0x00, CHR 0x00, CHR 0x00, CHR 0x05] @ [CHR 0x00, CHR 0x00] @ ''Hello''"

definition zero_file :: string where
  "zero_file =
     ''ID3'' @ [CHR 0x03, CHR 0x00, CHR 0x00, CHR 0x00, CHR 0x00, CHR 0x00, CHR 0x0F] @
     ''TIT2'' @ [CHR 0x00, CHR 0x00, CHR 0x00, CHR 0x05] @ [CHR 0x00, CHR 0x00] @
     ''Hi'' @ [CHR 0x00] @ ''xy''"

definition twice_cut_file :: string where
  "twice_cut_file =
     ''ID3'' @ [CHR 0x03, CHR 0x00, CHR 0x00, CHR 0x00, CHR 0x00, CHR 0x00, CHR 0x28] @
     ''TIT2'' @ [CHR 0x00, CHR 0x00, CHR 0x00, CHR 0x03] @ [CHR 0x00, CHR 0x00] @ ''One'' @
     ''TIT2'' @ [CHR 0x00, CHR 0x00, CHR 0x00, CHR 0x03] @ [CHR 0x00, CHR 0x00] @ ''Two'' @
     ''TPE1'' @ [CHR 0x80, CHR 0x00, CHR 0x00, CHR 0x00] @ [CHR 0x00, CHR 0x00] @ ''Nobody''"

definition empty_tag_file :: string where
  "empty_tag_file = ''ID3'' @ [CHR 0x03, CHR 0x00, CHR 0x00, CHR 0x00, CHR 0x00, CHR 0x00, CHR 0x00]"

definition six_x_tag :: TagData where
  "six_x_tag = \<lparr>version = None, title = Some ''x'', artist = Some ''x'', album = Some ''x'',
     year = Some ''x'', comment = Some ''x'', genre = Some ''x''\<rparr>"

definition roomy_tag_file :: string where
  "roomy_tag_file = ''ID3'' @ [CHR 0x03, CHR 0x00, CHR 0x00, CHR 0x00, CHR 0x00, CHR 0x00, CHR 0x42]"

section \<open>Worlds\<close>

lemma world_call [simp]:
  "entry (call w c) = entry w" "dir (call w c) = dir w" "contents (call w c) = contents w"
  "created (call w c) = created w" "calls (call w c) = calls w @ [c]"
  "may_open (call w c) = may_open w" "may_create (call w c) = may_create w"
  "may_remove (call w c) = may_remove w" "may_rename (call w c) = may_rename w"
  by (simp_all add: call_def)

lemma wb_file_calls [simp]: "wb_file (w\<lparr>calls := cs\<rparr>) = wb_file w"
  by (simp add: fun_eq_iff wb_file_def split: option.splits)

lemma files_call [simp]:
  "files (call w c) = files w" "open_file (call w c) = open_file w"
  "fopen_rb (call w c) = fopen_rb w" "wb_file (call w c) = wb_file w"
  by (simp_all add: fun_eq_iff files_def open_file_def fopen_rb_def call_def)

lemma world_opened [simp]:
  "entry (opened w f) = entry w" "dir (opened w f) = dir w"
  "contents (opened w f) = contents w" "created (opened w f) = created w"
  "calls (opened w f) = calls w @ [OpenRead f, OpenWrite temp_name]"
  "may_open (opened w f) = may_open w" "may_create (opened w f) = may_create w"
  "may_remove (opened w f) = may_remove w" "may_rename (opened w f) = may_rename w"
  "files (opened w f) = files w" "wb_file (opened w f) = wb_file w"
  by (simp_all add: opened_def)

lemma world_replaced [simp]:
  "files (replaced w f out) f = Some out"
  "fopen_rb (replaced w f out) f = (if may_open w f then Some out else None)"
  "calls (replaced w f out) =
     calls w @ [OpenRead f, OpenWrite temp_name, Remove f, Rename temp_name f]"
  "may_open (replaced w f out) = may_open w" "may_create (replaced w f out) = may_create w"
  "may_remove (replaced w f out) = may_remove w" "may_rename (replaced w f out) = may_rename w"
  by (simp_all add: replaced_def files_def fopen_rb_def open_file_def)

lemma fopen_rb_files: "fopen_rb w path = (if may_open w path then files w path else None)"
  by (simp add: fopen_rb_def open_file_def files_def)

lemma files_plain_world [simp]: "files (plain_world fs) = fs"
proof (rule ext)
  fix path
  show "files (plain_world fs) path = fs path"
    by (cases "fs path") (simp_all add: files_def plain_world_def)
qed

lemma fopen_rb_plain_world [simp]: "fopen_rb (plain_world fs) = fs"
  by (rule ext) (simp add: fopen_rb_files, simp add: plain_world_def)

section \<open>The format validator is a suffix test\<close>

lemma strrchr_None: "strrchr s c = None \<longleftrightarrow> c \<notin> set s"
  by (induction s) (auto split: option.splits)

lemma strrchr_Some:
  "strrchr s c = Some r \<longleftrightarrow> (\<exists>p t. s = p @ c # t \<and> r = c # t \<and> c \<notin> set t)"
proof (induction s arbitrary: r)
  case Nil
  then show ?case by simp
next
  case (Cons x xs)
  show ?case
  proof (cases "strrchr xs c")
    case None
    then have notin: "c \<notin> set xs" by (simp add: strrchr_None)
    show ?thesis
    proof
      assume "strrchr (x # xs) c = Some r"
      with None have "x = c" "r = x # xs" by (auto split: if_splits)
      with notin show "\<exists>p t. x # xs = p @ c # t \<and> r = c # t \<and> c \<notin> set t"
        by (intro exI [of _ "[]"] exI [of _ xs]) simp
    next
      assume "\<exists>p t. x # xs = p @ c # t \<and> r = c # t \<and> c \<notin> set t"
      then obtain p t where pt: "x # xs = p @ c # t" "r = c # t" "c \<notin> set t" by blast
      with notin have "p = []" by (cases p) auto
      with pt None show "strrchr (x # xs) c = Some r" by auto
    qed
  next
    case (Some r')
    with Cons.IH [of r'] obtain p t where pt: "xs = p @ c # t" "r' = c # t" "c \<notin> set t"
      by blast
    show ?thesis
    proof
      assume "strrchr (x # xs) c = Some r"
      with Some have "r = r'" by simp
      with pt show "\<exists>p t. x # xs = p @ c # t \<and> r = c # t \<and> c \<notin> set t"
        by (intro exI [of _ "x # p"] exI [of _ t]) simp
    next
      assume "\<exists>p t. x # xs = p @ c # t \<and> r = c # t \<and> c \<notin> set t"
      then obtain q u where qu: "x # xs = q @ c # u" "r = c # u" "c \<notin> set u" by blast
      have "q \<noteq> []"
      proof
        assume "q = []"
        with qu have "xs = u" by simp
        with pt qu show False by simp
      qed
      then obtain q' where q': "q = x # q'" "xs = q' @ c # u" using qu by (cases q) auto
      with Cons.IH [of "c # u"] qu have "strrchr xs c = Some (c # u)" by blast
      then have "strrchr (x # xs) c = Some (c # u)" by simp
      with qu show "strrchr (x # xs) c = Some r" by simp
    qed
  qed
qed

lemma check_id3_tag_presence_suffix:
  "check_id3_tag_presence filename \<longleftrightarrow> suffix ''.mp3'' filename"
proof
  assume "check_id3_tag_presence filename"
  then have "strrchr filename (CHR ''.'') = Some ''.mp3''"
    by (auto simp: check_id3_tag_presence_def split: option.splits)
  then obtain p where "filename = p @ ''.mp3''"
    by (auto simp: strrchr_Some)
  then show "suffix ''.mp3'' filename" by (simp add: suffix_def)
next
  assume "suffix ''.mp3'' filename"
  then obtain p where "filename = p @ CHR ''.'' # ''mp3''" by (auto simp: suffix_def)
  then have "strrchr filename (CHR ''.'') = Some ''.mp3''"
    unfolding strrchr_Some by (intro exI [of _ p] exI [of _ "''mp3''"]) simp
  then show "check_id3_tag_presence filename"
    by (simp add: check_id3_tag_presence_def)
qed

text \<open>
  Claim C5. The format validator accepts a path exactly when it ends with the suffix
  \<open>.mp3\<close>, compared character by character (so case matters). For a path that fails
  the test, \<open>read_id3_tags\<close> and \<open>write_id3_tags\<close> both return the error
  \<open>NotMp3File\<close> together with the world they were given: no call has been added to
  \<open>calls\<close> and no file has changed, whatever the world holds.
\<close>

theorem validator_gate:
  "(check_id3_tag_presence filename \<longleftrightarrow> suffix ''.mp3'' filename) \<and>
   (\<not> suffix ''.mp3'' filename \<longrightarrow>
      read_id3_tags w filename = Some (Inl NotMp3File, w) \<and>
      write_id3_tags w filename data = Some (Inl NotMp3File, w))"
  by (simp add: check_id3_tag_presence_suffix read_id3_tags_def write_id3_tags_def)

theorem validator_gate_witness:
  "\<not> suffix ''.mp3'' ''song.MP3'' \<and> \<not> check_id3_tag_presence ''song.MP3'' \<and>
   read_id3_tags (plain_world [''song.MP3'' \<mapsto> ''ID3'']) ''song.MP3''
     = Some (Inl NotMp3File, plain_world [''song.MP3'' \<mapsto> ''ID3'']) \<and>
   write_id3_tags (plain_world [''song.MP3'' \<mapsto> ''ID3'']) ''song.MP3'' create_tag_data
     = Some (Inl NotMp3File, plain_world [''song.MP3'' \<mapsto> ''ID3''])"
  using validator_gate [of "''song.MP3''" "plain_world [''song.MP3'' \<mapsto> ''ID3'']" create_tag_data]
  by (simp add: suffix_to_prefix)

section \<open>Bytes and sizes\<close>

lemma and_255_nat: "(x::nat) AND 0xFF = take_bit 8 x"
  using take_bit_eq_mask [of 8 x] unfolding mask_eq_exp_minus_1 by simp

lemma and_255_mod: "((x::nat) AND 255) mod 256 = take_bit 8 x"
  using and_255_nat [of x] by (simp add: take_bit_eq_mod)

lemma be_bytes_join:
  "push_bit 24 (take_bit 8 (drop_bit 24 n)) OR
   push_bit 16 (take_bit 8 (drop_bit 16 n)) OR
   push_bit 8 (take_bit 8 (drop_bit 8 n)) OR
   take_bit 8 n = take_bit 32 (n::nat)"
proof (rule bit_eqI)
  fix k
  show "bit (push_bit 24 (take_bit 8 (drop_bit 24 n)) OR
   push_bit 16 (take_bit 8 (drop_bit 16 n)) OR
   push_bit 8 (take_bit 8 (drop_bit 8 n)) OR
   take_bit 8 n) k = bit (take_bit 32 n) k"
    by (cases "k < 8"; cases "k < 16"; cases "k < 24"; cases "k < 32")
       (auto simp add: bit_simps)
qed

lemma length_size_bytes [simp]: "length (size_bytes n) = 4"
  by (simp add: size_bytes_def)

lemma int32_id: "0 \<le> k \<Longrightarrow> k < 2147483648 \<Longrightarrow> int32 k = k"
  by (simp add: int32_def)

lemma int32_range: "- 2147483648 \<le> int32 k" "int32 k < 2147483648"
proof -
  have "0 \<le> k mod 4294967296" "k mod 4294967296 < 4294967296"
    by simp_all
  then show "- 2147483648 \<le> int32 k" "int32 k < 2147483648"
    by (auto simp add: int32_def)
qed

lemma size_t_int [simp]: "size_t (int n) = n mod 18446744073709551616"
  unfolding size_t_def by (simp add: nat_mod_distrib)

lemma int_of_char: "(of_char c :: int) = int (of_char c)"
  by (simp add: of_nat_of_char)

lemma frame_size_nat:
  "push_bit 24 (of_char (sizeBytes ! 0)) OR push_bit 16 (of_char (sizeBytes ! 1)) OR
   push_bit 8 (of_char (sizeBytes ! 2)) OR of_char (sizeBytes ! 3) =
   int (push_bit 24 (of_char (sizeBytes ! 0)) OR push_bit 16 (of_char (sizeBytes ! 1)) OR
        push_bit 8 (of_char (sizeBytes ! 2)) OR of_char (sizeBytes ! 3))"
  by (simp add: of_nat_or_eq of_nat_push_bit of_nat_of_char)

lemma frame_size_size_bytes:
  assumes "n \<le> INT_MAX"
  shows "frame_size (size_bytes n) = int n"
proof -
  have n32: "n < 2 ^ 32" and n31: "n < 2 ^ 31" using assms by (simp_all add: INT_MAX_def)
  have "take_bit 32 n = n" using n32 by (simp add: take_bit_nat_eq_self)
  then have join: "push_bit 24 (take_bit 8 (drop_bit 24 n)) OR
     push_bit 16 (take_bit 8 (drop_bit 16 n)) OR
     push_bit 8 (take_bit 8 (drop_bit 8 n)) OR take_bit 8 n = n"
    by (simp only: be_bytes_join)
  have "push_bit 24 (of_char (size_bytes n ! 0)) OR push_bit 16 (of_char (size_bytes n ! 1)) OR
      push_bit 8 (of_char (size_bytes n ! 2)) OR of_char (size_bytes n ! 3) = n"
    unfolding size_bytes_def using join by (simp add: and_255_mod)
  then have "frame_size (size_bytes n) = int32 (int n)"
    unfolding frame_size_def by (simp only: frame_size_nat)
  then show ?thesis
    using n31 by (simp add: int32_id)
qed

lemma byte_of_char: "take_bit 8 (of_char c :: nat) = of_char c"
  by (simp add: take_bit_eq_mod)

lemma byte0:
  "take_bit 8 (drop_bit 24 (push_bit 24 (take_bit 8 a) OR push_bit 16 (take_bit 8 b) OR
     push_bit 8 (take_bit 8 c) OR take_bit 8 (d::nat))) = take_bit 8 a"
  by (rule bit_eqI) (auto simp add: bit_simps)

lemma byte1:
  "take_bit 8 (drop_bit 16 (push_bit 24 (take_bit 8 a) OR push_bit 16 (take_bit 8 b) OR
     push_bit 8 (take_bit 8 c) OR take_bit 8 (d::nat))) = take_bit 8 b"
  by (rule bit_eqI) (auto simp add: bit_simps)

lemma byte2:
  "take_bit 8 (drop_bit 8 (push_bit 24 (take_bit 8 a) OR push_bit 16 (take_bit 8 b) OR
     push_bit 8 (take_bit 8 c) OR take_bit 8 (d::nat))) = take_bit 8 c"
  by (rule bit_eqI) (auto simp add: bit_simps)

lemma byte3:
  "take_bit 8 (push_bit 24 (take_bit 8 a) OR push_bit 16 (take_bit 8 b) OR
     push_bit 8 (take_bit 8 c) OR take_bit 8 (d::nat)) = take_bit 8 d"
  by (rule bit_eqI) (auto simp add: bit_simps)

lemma join_less:
  "push_bit 24 (take_bit 8 a) OR push_bit 16 (take_bit 8 b) OR
     push_bit 8 (take_bit 8 c) OR take_bit 8 (d::nat) < 2 ^ 32"
proof -
  let ?x = "push_bit 24 (take_bit 8 a) OR push_bit 16 (take_bit 8 b) OR
     push_bit 8 (take_bit 8 c) OR take_bit 8 (d::nat)"
  have "take_bit 32 ?x = ?x"
    by (rule bit_eqI) (auto simp add: bit_simps)
  then show ?thesis by (metis take_bit_nat_less_exp)
qed

lemma char_255: "of_char c = (255::nat) \<Longrightarrow> c = CHR 0xFF"
proof -
  assume a: "of_char c = (255::nat)"
  have "c = char_of (of_char c :: nat)" by simp
  also have "\<dots> = char_of (255::nat)" by (simp only: a)
  also have "\<dots> = CHR 0xFF" by (simp add: char_of_def bit_iff_odd drop_bit_eq_div)
  finally show ?thesis .
qed

text \<open>The frame size is -1 only for the size bytes \<open>FF FF FF FF\<close>.\<close>

lemma frame_size_minus_one:
  assumes "length bs = 4"
  shows "frame_size bs = - 1 \<longleftrightarrow> bs = [CHR 0xFF, CHR 0xFF, CHR 0xFF, CHR 0xFF]"
proof
  assume "bs = [CHR 0xFF, CHR 0xFF, CHR 0xFF, CHR 0xFF]"
  then show "frame_size bs = - 1"
    by (simp add: frame_size_def int32_def)
next
  assume m: "frame_size bs = - 1"
  let ?v = "push_bit 24 (of_char (bs ! 0)) OR push_bit 16 (of_char (bs ! 1)) OR
            push_bit 8 (of_char (bs ! 2)) OR (of_char (bs ! 3) :: nat)"
  have less: "?v < 2 ^ 32"
    using join_less [of "of_char (bs ! 0)" "of_char (bs ! 1)" "of_char (bs ! 2)" "of_char (bs ! 3)"]
    by (simp only: byte_of_char)
  have fs: "frame_size bs = int32 (int ?v)"
    unfolding frame_size_def by (simp only: frame_size_nat)
  have "int ?v mod 4294967296 = int ?v" using less by simp
  with m fs have "int ?v = 4294967295"
    by (simp add: int32_def split: if_splits)
  then have v: "?v = 4294967295" by linarith
  have "take_bit 8 (drop_bit 24 ?v) = of_char (bs ! 0)"
    "take_bit 8 (drop_bit 16 ?v) = of_char (bs ! 1)"
    "take_bit 8 (drop_bit 8 ?v) = of_char (bs ! 2)"
    "take_bit 8 ?v = of_char (bs ! 3)"
    using byte0 [of "of_char (bs ! 0)" "of_char (bs ! 1)" "of_char (bs ! 2)" "of_char (bs ! 3)"]
      byte1 [of "of_char (bs ! 0)" "of_char (bs ! 1)" "of_char (bs ! 2)" "of_char (bs ! 3)"]
      byte2 [of "of_char (bs ! 0)" "of_char (bs ! 1)" "of_char (bs ! 2)" "of_char (bs ! 3)"]
      byte3 [of "of_char (bs ! 0)" "of_char (bs ! 1)" "of_char (bs ! 2)" "of_char (bs ! 3)"]
    by (simp_all only: byte_of_char)
  then have "of_char (bs ! 0) = (255::nat)" "of_char (bs ! 1) = (255::nat)"
    "of_char (bs ! 2) = (255::nat)" "of_char (bs ! 3) = (255::nat)"
    unfolding v by (simp_all add: drop_bit_eq_div take_bit_eq_mod)
  then have "bs ! 0 = CHR 0xFF" "bs ! 1 = CHR 0xFF" "bs ! 2 = CHR 0xFF" "bs ! 3 = CHR 0xFF"
    by (simp_all only: char_255)
  with assms show "bs = [CHR 0xFF, CHR 0xFF, CHR 0xFF, CHR 0xFF]"
    by (simp add: list_eq_iff_nth_eq less_Suc_eq numeral_eq_Suc)
qed

lemma no_malloc_null: "n < INT_MAX \<Longrightarrow> \<not> malloc_null (int32 (int n + 1))"
  by (simp add: malloc_null_def int32_def INT_MAX_def)

text \<open>
  \<open>malloc(frameSize + 1)\<close> returns \<open>NULL\<close> exactly for a frame size below -1 and for
  \<open>INT_MAX\<close>.
\<close>

lemma malloc_null_iff:
  assumes "- 2147483648 \<le> n" and "n < 2147483648"
  shows "malloc_null (int32 (n + 1)) \<longleftrightarrow> n < - 1 \<or> n = 2147483647"
proof -
  consider "n < - 1" | "n = 2147483647" | "- 1 \<le> n" "n < 2147483647"
    using assms(2) by linarith
  then show ?thesis
  proof cases
    case 1
    have "(n + 1) mod 4294967296 = (n + 1 + 4294967296) mod 4294967296"
      by (simp only: mod_add_self2)
    also have "\<dots> = n + 1 + 4294967296"
      using assms(1) 1 by (intro mod_pos_pos_trivial) simp_all
    finally show ?thesis
      using 1 assms(1) by (simp add: malloc_null_def int32_def)
  next
    case 2
    then show ?thesis by (simp add: malloc_null_def int32_def)
  next
    case 3
    then have "int32 (n + 1) = n + 1" by (intro int32_id) simp_all
    then show ?thesis using 3 by (simp add: malloc_null_def)
  qed
qed

lemma size_bytes_big_endian32: "size_bytes n = big_endian32 n"
proof -
  have "\<And>x::nat. char_of (x AND 255) = char_of (x mod 256)"
    using and_255_nat by (simp add: take_bit_eq_mod)
  then show ?thesis
    by (simp add: size_bytes_def big_endian32_def drop_bit_eq_div)
qed

lemma be_value_big_endian32: "n < 2 ^ 32 \<Longrightarrow> be_value (big_endian32 n) = n"
proof -
  assume n: "n < 2 ^ 32"
  have a: "n div 16777216 mod 256 = n div 16777216"
    using n by (simp add: less_mult_imp_div_less)
  have "n div 65536 div 256 = n div 16777216" "n div 256 div 256 = n div 65536"
    by (simp_all add: div_mult2_eq [symmetric])
  then have b: "n div 16777216 * 256 + n div 65536 mod 256 = n div 65536"
    and c: "n div 65536 * 256 + n div 256 mod 256 = n div 256"
    using div_mult_mod_eq [of "n div 65536" 256] div_mult_mod_eq [of "n div 256" 256]
    by simp_all
  have d: "n div 256 * 256 + n mod 256 = n"
    by simp
  show ?thesis
    by (simp add: be_value_def big_endian32_def a b c d)
qed

lemma and_127_nat: "(x::nat) AND 0x7F = take_bit 7 x"
  using take_bit_eq_mask [of 7 x] unfolding mask_eq_exp_minus_1 by simp

lemma tag_size_less: "tag_size header < 2 ^ 28"
proof -
  let ?x = "push_bit 21 (take_bit 7 (of_char (header ! 6) :: nat)) OR
     push_bit 14 (take_bit 7 (of_char (header ! 7))) OR
     push_bit 7 (take_bit 7 (of_char (header ! 8))) OR
     take_bit 7 (of_char (header ! 9))"
  have "take_bit 28 ?x = ?x"
  proof (rule bit_eqI)
    fix k
    show "bit (take_bit 28 ?x) k = bit ?x k"
      by (cases "k < 7"; cases "k < 14"; cases "k < 21"; cases "k < 28")
         (auto simp add: bit_simps)
  qed
  then have "?x < 2 ^ 28"
    by (metis take_bit_nat_less_exp)
  then show ?thesis
    by (simp only: tag_size_def and_127_nat)
qed

lemma char_of_digits:
  "char_of (48::nat) = CHR ''0''" "char_of (51::nat) = CHR ''3''"
  by (simp_all add: char_of_def bit_iff_odd drop_bit_eq_div)

lemma size_bytes_3: "size_bytes 3 = [CHR 0x00, CHR 0x00, CHR 0x00, CHR 0x03]"
  by (simp add: size_bytes_def char_of_def bit_iff_odd drop_bit_eq_div)

lemma size_bytes_5: "size_bytes 5 = [CHR 0x00, CHR 0x00, CHR 0x00, CHR 0x05]"
  by (simp add: size_bytes_def char_of_def bit_iff_odd drop_bit_eq_div)

lemma size_bytes_Suc3: "size_bytes (Suc (Suc (Suc 0))) = [CHR 0x00, CHR 0x00, CHR 0x00, CHR 0x03]"
  using size_bytes_3 by (simp add: numeral_3_eq_3)

lemma size_bytes_lengths:
  "size_bytes (length ''abc'') = [CHR 0x00, CHR 0x00, CHR 0x00, CHR 0x03]"
  "size_bytes (length ''Hello'') = [CHR 0x00, CHR 0x00, CHR 0x00, CHR 0x05]"
  "size_bytes (length (''Hi'' @ NUL # ''xy'')) = [CHR 0x00, CHR 0x00, CHR 0x00, CHR 0x05]"
proof -
  have "length ''abc'' = 3" "length ''Hello'' = 5" "length (''Hi'' @ NUL # ''xy'') = 5"
    by simp_all
  then show
    "size_bytes (length ''abc'') = [CHR 0x00, CHR 0x00, CHR 0x00, CHR 0x03]"
    "size_bytes (length ''Hello'') = [CHR 0x00, CHR 0x00, CHR 0x00, CHR 0x05]"
    "size_bytes (length (''Hi'' @ NUL # ''xy'')) = [CHR 0x00, CHR 0x00, CHR 0x00, CHR 0x05]"
    by (simp_all only: size_bytes_3 size_bytes_5)
qed

section \<open>The frame loop\<close>

lemma frame_loop_sim:
  "(\<forall>i c a b. R a b \<longrightarrow> R (act1 i c a) (act2 i c b)) \<Longrightarrow> R a b \<Longrightarrow>
   rel_option R (frame_loop act1 fp e pos a) (frame_loop act2 fp e pos b)"
proof (induction act1 fp e pos a arbitrary: b rule: frame_loop.induct)
  case (1 act fp tagEnd pos acc)
  show ?case
    apply (subst frame_loop.simps)
    apply (subst (2) frame_loop.simps)
    using 1
    apply (auto simp add: Let_def)
    done
qed

text \<open>
  The loop has a result unless it meets the frame size -1, that is the size bytes
  \<open>FF FF FF FF\<close>, before the end of the file.
\<close>

lemma frame_loop_defined:
  "\<forall>p. p + 10 < length fp \<longrightarrow> frame_size (fread fp (p + 4) 4) \<noteq> - 1 \<Longrightarrow>
   \<exists>r. frame_loop act fp tagEnd pos acc = Some r"
proof (induction act fp tagEnd pos acc rule: frame_loop.induct)
  case (1 act fp tagEnd pos acc)
  let ?n = "frame_size (fread fp (pos + 4) 4)"
  have fits: "\<not> size_t (int32 (?n + 1)) < length (fread fp (pos + 10) (size_t ?n))"
    if "\<not> malloc_null (int32 (?n + 1))"
  proof (cases "?n = - 1")
    case True
    with 1(2) have "length fp \<le> pos + 10" by (meson not_le_imp_less)
    then show ?thesis by (simp add: fread_def)
  next
    case False
    have "- 2147483648 \<le> ?n" "?n < 2147483648"
      unfolding frame_size_def by (rule int32_range)+
    with False that have "0 \<le> ?n" "?n + 1 < 2147483648"
      by (simp_all add: malloc_null_iff)
    then have "size_t ?n = nat ?n" "size_t (int32 (?n + 1)) = nat ?n + 1"
      by (simp_all add: size_t_def int32_def nat_add_distrib)
    then show ?thesis by (simp add: fread_def)
  qed
  show ?case
    apply (subst frame_loop.simps)
    using 1 fits
    apply (auto simp add: Let_def)
    done
qed

lemma frames_read_defined:
  assumes "\<forall>p. p + 10 < length fp \<longrightarrow>
             fread fp (p + 4) 4 \<noteq> [CHR 0xFF, CHR 0xFF, CHR 0xFF, CHR 0xFF]"
  shows "frames_read fp tagEnd pos \<noteq> None"
proof -
  have "frame_size (fread fp (p + 4) 4) \<noteq> - 1" if "p + 10 < length fp" for p
  proof -
    have "length (fread fp (p + 4) 4) = 4" using that by (simp add: fread_def)
    then show ?thesis
      using assms that by (simp add: frame_size_minus_one)
  qed
  then have "\<exists>r. frame_loop (\<lambda>frameId content fs. fs @ [(frameId, content)]) fp tagEnd pos []
      = Some r"
    by (intro frame_loop_defined) simp
  then show ?thesis by (auto simp add: frames_read_def)
qed

text \<open>A frame header with these size bytes that is followed by data leaves no result.\<close>

lemma frame_loop_overrun:
  assumes "pos < tagEnd" and "pos + 10 < length fp" and "fp ! pos \<noteq> NUL"
    and "fread fp (pos + 4) 4 = [CHR 0xFF, CHR 0xFF, CHR 0xFF, CHR 0xFF]"
  shows "frame_loop act fp tagEnd pos acc = None"
proof -
  have fs: "frame_size [CHR 0xFF, CHR 0xFF, CHR 0xFF, CHR 0xFF] = - 1"
    by (simp add: frame_size_minus_one)
  have hd: "length (fread fp pos 4) = 4" "length (fread fp (pos + 8) 2) = 2"
    "fread fp pos 4 ! 0 = fp ! pos"
    using assms(2) by (simp_all add: fread_def)
  have "0 < length (fread fp (pos + 10) (size_t (- 1)))"
    using assms(2) by (simp add: fread_def size_t_def)
  then show ?thesis
    apply (subst frame_loop.simps)
    using assms(1,3) hd
    by (simp add: Let_def fs assms(4) malloc_null_def int32_def size_t_def)
qed

text \<open>Where \<open>malloc\<close> returns \<open>NULL\<close> the loop stops with what it has.\<close>

lemma frame_loop_break:
  "malloc_null (int32 (frame_size (fread fp (pos + 4) 4) + 1)) \<Longrightarrow>
   frame_loop act fp tagEnd pos acc = Some acc"
  by (subst frame_loop.simps) (simp add: Let_def)

lemma frame_loop_fold:
  "frame_loop act fp e pos acc =
   map_option (foldl (\<lambda>a (i, c). act i c a) acc) (frames_read fp e pos)"
proof -
  let ?g = "\<lambda>a (i, c). act i c a"
  have "rel_option (\<lambda>a fs. a = foldl ?g acc fs) (frame_loop act fp e pos acc)
     (frame_loop (\<lambda>frameId content fs. fs @ [(frameId, content)]) fp e pos [])"
    by (rule frame_loop_sim) simp_all
  then show ?thesis
    unfolding frames_read_def
    by (cases "frame_loop act fp e pos acc";
        cases "frame_loop (\<lambda>frameId content fs. fs @ [(frameId, content)]) fp e pos []") simp_all
qed

lemma frames_read_acc:
  "frame_loop (\<lambda>frameId content fs. fs @ [(frameId, content)]) fp e pos acc =
   map_option ((@) acc) (frames_read fp e pos)"
proof -
  have "rel_option (\<lambda>a b. a = acc @ b)
     (frame_loop (\<lambda>frameId content fs. fs @ [(frameId, content)]) fp e pos acc)
     (frame_loop (\<lambda>frameId content fs. fs @ [(frameId, content)]) fp e pos [])"
    by (rule frame_loop_sim) simp_all
  then show ?thesis
    unfolding frames_read_def
    by (cases "frame_loop (\<lambda>frameId content fs. fs @ [(frameId, content)]) fp e pos acc";
        cases "frame_loop (\<lambda>frameId content fs. fs @ [(frameId, content)]) fp e pos []")
       simp_all
qed

lemma frame_loop_frame:
  assumes "pos < tagEnd"
    and "drop pos fp = fid @ size_bytes (length body) @ fl @ body @ rest"
    and "length fid = 4" and "length fl = 2" and "fid ! 0 \<noteq> NUL"
    and "length body < INT_MAX"
  shows "frame_loop act fp tagEnd pos acc =
         frame_loop act fp tagEnd (pos + 10 + length body) (act fid body acc)"
proof -
  have d: "\<And>k. drop (pos + k) fp = drop k (fid @ size_bytes (length body) @ fl @ body @ rest)"
  proof -
    fix k
    have "drop (pos + k) fp = drop k (drop pos fp)" by (simp add: add.commute)
    then show "drop (pos + k) fp = drop k (fid @ size_bytes (length body) @ fl @ body @ rest)"
      by (simp only: assms(2))
  qed
  have r0: "fread fp pos 4 = fid"
    using assms(2,3) by (simp add: fread_def)
  have r4: "fread fp (pos + 4) 4 = size_bytes (length body)"
    using assms(3) by (simp add: fread_def d)
  have r8: "length (fread fp (pos + 8) 2) = 2"
    using assms(3,4) by (simp add: fread_def d)
  have r10: "fread fp (pos + 10) (length body) = body"
    using assms(3,4) by (simp add: fread_def d)
  have fs: "frame_size (size_bytes (length body)) = int (length body)"
    using assms(6) by (simp add: frame_size_size_bytes)
  have sz: "length body mod 18446744073709551616 = length body"
    using assms(6) by (simp add: INT_MAX_def)
  have nn: "\<not> malloc_null (int32 (int (length body) + 1))"
    using assms(6) by (rule no_malloc_null)
  have room: "size_t (int32 (int (length body) + 1)) = length body + 1"
    using assms(6) by (simp add: int32_def INT_MAX_def size_t_def nat_add_distrib)
  show ?thesis
    apply (subst frame_loop.simps)
    using assms(1,3,5) nn by (simp add: r0 r4 r8 r10 fs sz room Let_def)
qed

lemma two_frames:
  assumes "drop pos fp = i1 @ size_bytes (length b1) @ fl1 @ b1 @
                         i2 @ size_bytes (length b2) @ fl2 @ b2 @ rest"
    and "length i1 = 4" and "i1 ! 0 \<noteq> NUL" and "length fl1 = 2" and "length b1 < INT_MAX"
    and "length i2 = 4" and "i2 ! 0 \<noteq> NUL" and "length fl2 = 2" and "length b2 < INT_MAX"
    and "pos + 10 + length b1 < tagEnd"
  shows "frame_loop act fp tagEnd pos acc =
         frame_loop act fp tagEnd (pos + 10 + length b1 + 10 + length b2)
           (act i2 b2 (act i1 b1 acc))"
proof -
  have lay1: "drop pos fp = i1 @ size_bytes (length b1) @ fl1 @ b1 @
                         (i2 @ size_bytes (length b2) @ fl2 @ b2 @ rest)"
    using assms(1) by simp
  have "pos < tagEnd" using assms(10) by simp
  then have s1: "frame_loop act fp tagEnd pos acc =
      frame_loop act fp tagEnd (pos + 10 + length b1) (act i1 b1 acc)"
    using lay1 assms(2,4,3,5) by (rule frame_loop_frame)
  have "drop (pos + 10 + length b1) fp = drop (10 + length b1) (drop pos fp)"
    by (simp add: add.commute add.left_commute)
  then have lay2: "drop (pos + 10 + length b1) fp = i2 @ size_bytes (length b2) @ fl2 @ b2 @ rest"
    unfolding lay1 using assms(2,4) by simp
  have "frame_loop act fp tagEnd (pos + 10 + length b1) (act i1 b1 acc) =
      frame_loop act fp tagEnd (pos + 10 + length b1 + 10 + length b2)
        (act i2 b2 (act i1 b1 acc))"
    using assms(10) lay2 assms(6,8,7,9) by (rule frame_loop_frame)
  with s1 show ?thesis by simp
qed

lemma frame_loop_stop:
  assumes "tagEnd \<le> pos \<or> length fp < pos + 10 \<or> fp ! pos = NUL"
  shows "frame_loop act fp tagEnd pos acc = Some acc"
proof (cases "tagEnd \<le> pos \<or> length fp < pos + 10")
  case True
  then show ?thesis
    by (subst frame_loop.simps) (auto simp add: fread_def)
next
  case False
  with assms have "fp ! pos = NUL" "pos + 10 \<le> length fp" by auto
  then have "fread fp pos 4 ! 0 = NUL" by (simp add: fread_def)
  then show ?thesis
    by (subst frame_loop.simps) simp
qed

lemma length_frame_bytes: "length i = 4 \<Longrightarrow> length (frame_bytes i b) = 10 + length b"
  by (simp add: frame_bytes_def)

lemma frame_loop_frames:
  "\<forall>(i, b) \<in> set fs. length i = 4 \<and> i ! 0 \<noteq> NUL \<and> length b < INT_MAX \<Longrightarrow>
   drop pos fp = concat (map (\<lambda>(i, b). frame_bytes i b) fs) @ rest \<Longrightarrow>
   (fs \<noteq> [] \<longrightarrow> pos + length (concat (map (\<lambda>(i, b). frame_bytes i b) (butlast fs))) < tagEnd) \<Longrightarrow>
   frame_loop act fp tagEnd pos acc =
     frame_loop act fp tagEnd (pos + length (concat (map (\<lambda>(i, b). frame_bytes i b) fs)))
       (foldl (\<lambda>a (i, b). act i b a) acc fs)"
proof (induction fs arbitrary: pos acc)
  case Nil
  then show ?case by simp
next
  case (Cons f fs)
  obtain i b where f: "f = (i, b)" by (cases f)
  from Cons.prems(1) f have ok: "length i = 4" "i ! 0 \<noteq> NUL" "length b < INT_MAX"
    and oks: "\<forall>(i, b) \<in> set fs. length i = 4 \<and> i ! 0 \<noteq> NUL \<and> length b < INT_MAX"
    by auto
  let ?rest = "concat (map (\<lambda>(i, b). frame_bytes i b) fs) @ rest"
  have lay: "drop pos fp = i @ size_bytes (length b) @ [NUL, NUL] @ b @ ?rest"
    using Cons.prems(2) ok(1) by (simp add: f frame_bytes_def)
  have "pos < tagEnd" using Cons.prems(3) by (cases fs) simp_all
  then have s1: "frame_loop act fp tagEnd pos acc =
      frame_loop act fp tagEnd (pos + 10 + length b) (act i b acc)"
    using lay ok(1) _ ok(2,3) by (rule frame_loop_frame) simp
  have "drop (pos + 10 + length b) fp = drop (10 + length b) (drop pos fp)"
    by (simp add: add.commute add.left_commute)
  then have lay2: "drop (pos + 10 + length b) fp = ?rest"
    unfolding lay using ok(1) by simp
  have bound: "fs \<noteq> [] \<longrightarrow>
      pos + 10 + length b + length (concat (map (\<lambda>(i, b). frame_bytes i b) (butlast fs))) < tagEnd"
    using Cons.prems(3) ok(1) by (cases "fs = []") (simp_all add: f length_frame_bytes)
  have "frame_loop act fp tagEnd (pos + 10 + length b) (act i b acc) =
     frame_loop act fp tagEnd
       (pos + 10 + length b + length (concat (map (\<lambda>(i, b). frame_bytes i b) fs)))
       (foldl (\<lambda>a (i, b). act i b a) (act i b acc) fs)"
    using oks lay2 bound by (rule Cons.IH)
  with s1 show ?case
    using ok(1) by (simp add: f length_frame_bytes add.assoc)
qed

section \<open>What a frame does to the record\<close>

lemma known_id_props:
  assumes "kid \<in> known_ids"
  shows "length kid = 4" and "kid ! 0 \<noteq> NUL" and "c_str kid = kid"
  using assms by (auto simp add: known_ids_def NUL_def c_str_def)

lemma store_frame_unknown: "c_str uid \<notin> known_ids \<Longrightarrow> store_frame uid content data = data"
  by (simp add: store_frame_def known_ids_def)

lemma field_of_store_frame:
  "kid \<in> known_ids \<Longrightarrow> field_of kid (store_frame kid content data) = Some (c_str content)"
  by (auto simp add: known_id_props known_ids_def store_frame_def field_of_def c_str_def NUL_def)

lemma field_of_store_frame_other:
  "k \<in> known_ids \<Longrightarrow> c_str fid \<noteq> k \<Longrightarrow>
   field_of k (store_frame fid content data) = field_of k data"
  by (auto simp add: known_ids_def store_frame_def field_of_def)

lemma c_str_prefix: "NUL \<notin> set p \<Longrightarrow> c_str (p @ NUL # s) = p"
  by (auto simp add: c_str_def takeWhile_tail)

lemma c_str_clean: "NUL \<notin> set p \<Longrightarrow> c_str p = p"
  by (auto simp add: c_str_def)

lemma c_str_idem: "c_str (c_str x) = c_str x"
  by (simp add: c_str_def)

lemma store_frame_c_str: "store_frame fid (c_str content) data = store_frame fid content data"
  by (simp add: store_frame_def c_str_def)

lemma field_of_foldl:
  assumes "k \<in> known_ids"
  shows "field_of k (foldl (\<lambda>a (i, c). store_frame i c a) data fs) =
    (if filter (\<lambda>(i, c). c_str i = k) fs = [] then field_of k data
     else Some (c_str (snd (last (filter (\<lambda>(i, c). c_str i = k) fs)))))"
proof (induction fs rule: rev_induct)
  case Nil
  then show ?case by simp
next
  case (snoc f fs)
  obtain i c where f: "f = (i, c)" by (cases f)
  let ?d = "foldl (\<lambda>a (i, c). store_frame i c a) data fs"
  have step: "foldl (\<lambda>a (i, c). store_frame i c a) data (fs @ [f]) = store_frame i c ?d"
    by (simp add: f)
  show ?case
  proof (cases "c_str i = k")
    case True
    have "store_frame i c ?d = store_frame (c_str i) c ?d"
      by (simp add: store_frame_def c_str_idem)
    then have "store_frame i c ?d = store_frame k c ?d"
      by (simp only: True)
    then have "field_of k (store_frame i c ?d) = Some (c_str c)"
      using assms by (simp only: field_of_store_frame)
    moreover have "filter (\<lambda>(i, c). c_str i = k) (fs @ [f]) =
        filter (\<lambda>(i, c). c_str i = k) fs @ [(i, c)]"
      using True by (simp add: f)
    ultimately show ?thesis
      by (simp only: step) simp
  next
    case False
    with assms have "field_of k (store_frame i c ?d) = field_of k ?d"
      by (rule field_of_store_frame_other)
    moreover have "filter (\<lambda>(i, c). c_str i = k) (fs @ [f]) =
        filter (\<lambda>(i, c). c_str i = k) fs"
      using False by (simp add: f)
    ultimately show ?thesis
      using snoc by (simp only: step)
  qed
qed

lemma store_six:
  "foldl (\<lambda>a (i, b). store_frame i b a) d
     [(''TIT2'', t), (''TPE1'', a), (''TALB'', al), (''TYER'', y), (''COMM'', c), (''TCON'', g)] =
   d\<lparr>title := Some (c_str t), artist := Some (c_str a), album := Some (c_str al),
      year := Some (c_str y), comment := Some (c_str c), genre := Some (c_str g)\<rparr>"
  by (simp add: store_frame_def c_str_def NUL_def)

section \<open>Reading a tag without frames\<close>

lemma read_no_frames:
  assumes "check_id3_tag_presence filename"
    and "fopen_rb w filename = Some fp"
    and "10 \<le> length fp"
    and "take 3 fp = ''ID3''"
    and "tag_size (take 10 fp) = 0"
  shows "read_id3_tags w filename =
    Some (Inr \<lparr>version = Some (version_string (fp ! 3) (fp ! 4)), title = None,
      artist = None, album = None, year = None, comment = None, genre = None\<rparr>,
      call w (OpenRead filename))"
  using assms
  by (simp add: read_id3_tags_def fread_def parse_frames_def frame_loop.simps [of _ _ 10 10]
      create_tag_data_def min_def Let_def)

text \<open>
  Claim C7. For a file that the validator accepts and that opens, that has the ten header
  bytes, whose first three bytes are \<open>ID3\<close> and whose sync-safe size field decodes to 0,
  \<open>read_id3_tags\<close> succeeds, and the record it returns has the version set (formatted
  from bytes 3 and 4) and all six text fields absent.
\<close>

theorem read_empty_tag:
  assumes "check_id3_tag_presence filename"
    and "fopen_rb w filename = Some fp"
    and "10 \<le> length fp"
    and "take 3 fp = ''ID3''"
    and "tag_size (take 10 fp) = 0"
  shows "read_id3_tags w filename =
    Some (Inr \<lparr>version = Some (version_string (fp ! 3) (fp ! 4)), title = None,
      artist = None, album = None, year = None, comment = None, genre = None\<rparr>,
      call w (OpenRead filename))"
  using assms by (rule read_no_frames)

theorem read_empty_tag_witness:
  "read_id3_tags
     (plain_world [''a.mp3'' \<mapsto>
        ''ID3'' @ [CHR 0x03, CHR 0x00, CHR 0x00, CHR 0x00, CHR 0x00, CHR 0x00, CHR 0x00]])
     ''a.mp3'' =
    Some (Inr \<lparr>version = Some ''ID3v2.3.0'', title = None,
      artist = None, album = None, year = None, comment = None, genre = None\<rparr>,
      call (plain_world [''a.mp3'' \<mapsto>
        ''ID3'' @ [CHR 0x03, CHR 0x00, CHR 0x00, CHR 0x00, CHR 0x00, CHR 0x00, CHR 0x00]])
        (OpenRead ''a.mp3''))"
  using read_empty_tag [of "''a.mp3''"
     "plain_world [''a.mp3'' \<mapsto>
        ''ID3'' @ [CHR 0x03, CHR 0x00, CHR 0x00, CHR 0x00, CHR 0x00, CHR 0x00, CHR 0x00]]"
     "''ID3'' @ [CHR 0x03, CHR 0x00, CHR 0x00, CHR 0x00, CHR 0x00, CHR 0x00, CHR 0x00]"]
  by (simp add: check_id3_tag_presence_def tag_size_def version_string_def dec.simps
      char_of_digits)

section \<open>Reading a file that starts with frames\<close>

lemma read_frames_file:
  assumes "check_id3_tag_presence filename"
    and "fopen_rb w filename = Some fp"
    and "10 \<le> length fp"
    and "take 3 fp = ''ID3''"
    and "drop 10 fp = concat (map (\<lambda>(i, b). frame_bytes i b) fs) @ rest"
    and "\<forall>(i, b) \<in> set fs. length i = 4 \<and> i ! 0 \<noteq> NUL \<and> length b < INT_MAX"
    and "fs \<noteq> [] \<longrightarrow>
           length (concat (map (\<lambda>(i, b). frame_bytes i b) (butlast fs))) < tag_size (take 10 fp)"
    and "tag_size (take 10 fp) \<le> length (concat (map (\<lambda>(i, b). frame_bytes i b) fs)) \<or>
         length rest < 10 \<or> rest ! 0 = NUL"
  shows "read_id3_tags w filename =
    Some (Inr (foldl (\<lambda>a (i, b). store_frame i b a)
      (create_tag_data\<lparr>version := Some (version_string (fp ! 3) (fp ! 4))\<rparr>) fs),
      call w (OpenRead filename))"
proof -
  let ?L = "length (concat (map (\<lambda>(i, b). frame_bytes i b) fs))"
  let ?S = "tag_size (take 10 fp)"
  let ?d = "create_tag_data\<lparr>version := Some (version_string (fp ! 3) (fp ! 4))\<rparr>"
  have hdr: "tag_size (fread fp 0 10) = tag_size (take 10 fp)" by (simp add: fread_def)
  have len: "length (fread fp 0 10) = 10" using assms(3) by (simp add: fread_def)
  have magic: "take 3 (fread fp 0 10) = ''ID3''" using assms(4) by (simp add: fread_def min_def)
  have nth: "fread fp 0 10 ! 3 = fp ! 3" "fread fp 0 10 ! 4 = fp ! 4"
    by (simp_all add: fread_def)
  have bnd: "fs \<noteq> [] \<longrightarrow>
      10 + length (concat (map (\<lambda>(i, b). frame_bytes i b) (butlast fs))) < 10 + ?S"
    using assms(7) by simp
  have s1: "frame_loop store_frame fp (10 + ?S) 10 ?d =
      frame_loop store_frame fp (10 + ?S) (10 + ?L) (foldl (\<lambda>a (i, b). store_frame i b a) ?d fs)"
    using assms(6,5) bnd by (rule frame_loop_frames)
  have "length (drop 10 fp) = ?L + length rest"
    by (simp only: assms(5) length_append)
  then have flen: "length fp = 10 + ?L + length rest" using assms(3) by simp
  have "fp ! (10 + ?L) = drop 10 fp ! ?L" using assms(3) by simp
  also have "\<dots> = rest ! 0" unfolding assms(5) by (simp add: nth_append)
  finally have at: "fp ! (10 + ?L) = rest ! 0" .
  have "10 + ?S \<le> 10 + ?L \<or> length fp < 10 + ?L + 10 \<or> fp ! (10 + ?L) = NUL"
    using assms(8) flen at by auto
  then have s2: "frame_loop store_frame fp (10 + ?S) (10 + ?L) d = Some d" for d
    by (rule frame_loop_stop)
  show ?thesis
    using assms(1,2)
    by (simp add: read_id3_tags_def hdr len magic nth parse_frames_def s1 s2 Let_def)
qed

section \<open>The scenario of the specification\<close>

lemma read_hello_file:
  assumes "check_id3_tag_presence filename" and "fopen_rb w filename = Some hello_file"
  shows "read_id3_tags w filename =
    Some (Inr \<lparr>version = Some ''ID3v2.3.0'', title = Some ''Hello'', artist = None,
      album = None, year = None, comment = None, genre = None\<rparr>,
      call w (OpenRead filename))"
proof -
  have hdr: "fread hello_file 0 10 =
      ''ID3'' @ [CHR 0x03, CHR 0x00, CHR 0x00, CHR 0x00, CHR 0x00, CHR 0x00, CHR 0x23]"
    by (simp add: fread_def hello_file_def)
  have sz: "tag_size (fread hello_file 0 10) = 35"
    unfolding hdr by (simp add: tag_size_def)
  have ver: "version_string (fread hello_file 0 10 ! 3) (fread hello_file 0 10 ! 4) = ''ID3v2.3.0''"
    unfolding hdr by (simp add: version_string_def dec.simps char_of_digits)
  have "length ''Hello'' = 5" by simp
  then have sb: "size_bytes (length ''Hello'') = [CHR 0x00, CHR 0x00, CHR 0x00, CHR 0x05]"
    by (simp only: size_bytes_5)
  have lay: "drop 10 hello_file =
      ''TIT2'' @ size_bytes (length ''Hello'') @ [CHR 0x00, CHR 0x00] @ ''Hello'' @ replicate 20 (CHR 0x00)"
    unfolding sb by (simp add: hello_file_def)
  have step: "frame_loop store_frame hello_file 45 10 d =
      frame_loop store_frame hello_file 45 (10 + 10 + length ''Hello'') (store_frame ''TIT2'' ''Hello'' d)" for d
    by (rule frame_loop_frame [OF _ lay]) (simp_all add: NUL_def INT_MAX_def)
  have stop: "frame_loop store_frame hello_file 45 25 d = Some d" for d
    by (rule frame_loop_stop) (simp add: hello_file_def NUL_def)
  have st: "store_frame ''TIT2'' ''Hello'' d = d\<lparr>title := Some ''Hello''\<rparr>" for d
    by (simp add: store_frame_def c_str_def NUL_def)
  have len: "length (fread hello_file 0 10) = 10" and magic: "take 3 (fread hello_file 0 10) = ''ID3''"
    unfolding hdr by simp_all
  show ?thesis
    using assms
    by (simp add: read_id3_tags_def len magic sz ver parse_frames_def step stop st
        create_tag_data_def Let_def)
qed

text \<open>
  Claim C3, as the code has it. For the file of the scenario (header \<open>ID3\<close>, 3, 0, 0 and
  size bytes 0, 0, 0, 0x23; the frame \<open>TIT2\<close> of length 5 with two zero flag bytes and the
  body \<open>Hello\<close>; twenty zero bytes), under any path the validator accepts,
  \<open>read_id3_tags\<close> returns the title \<open>Hello\<close>, the other five text fields absent, and
  the version \<open>ID3v2.3.0\<close>: the format \<open>ID3v2.%d.%d\<close> prints both version bytes. The
  claim's \<open>ID3v2.3\<close> is not what is returned.
\<close>

theorem read_hello_scenario:
  assumes "check_id3_tag_presence filename" and "fopen_rb w filename = Some hello_file"
  shows "read_id3_tags w filename =
    Some (Inr \<lparr>version = Some ''ID3v2.3.0'', title = Some ''Hello'', artist = None,
      album = None, year = None, comment = None, genre = None\<rparr>,
      call w (OpenRead filename))"
  using assms by (rule read_hello_file)

theorem read_hello_scenario_witness:
  "read_id3_tags (plain_world [''song.mp3'' \<mapsto> hello_file]) ''song.mp3'' =
    Some (Inr \<lparr>version = Some ''ID3v2.3.0'', title = Some ''Hello'', artist = None,
      album = None, year = None, comment = None, genre = None\<rparr>,
      call (plain_world [''song.mp3'' \<mapsto> hello_file]) (OpenRead ''song.mp3''))"
  using read_hello_scenario [of "''song.mp3''" "plain_world [''song.mp3'' \<mapsto> hello_file]"]
  by (simp add: check_id3_tag_presence_def)

theorem read_hello_version_counterexample:
  "map_option fst (read_id3_tags (plain_world [''song.mp3'' \<mapsto> hello_file]) ''song.mp3'') \<noteq>
    Some (Inr \<lparr>version = Some ''ID3v2.3'', title = Some ''Hello'', artist = None,
      album = None, year = None, comment = None, genre = None\<rparr>)"
  using read_hello_file [of "''song.mp3''" "plain_world [''song.mp3'' \<mapsto> hello_file]"]
  by (simp add: check_id3_tag_presence_def)

section \<open>Frames with an unknown id\<close>

text \<open>
  Claim C6. Where the file holds, at the position of the loop, a complete frame whose id
  is none of the six (and does not start with a zero byte) followed by a complete frame
  with one of the six ids that starts before the end of the tag, the loop reads both
  frames to their end and goes on behind the second. The first frame leaves the record
  as it is; the second sets its field to the content of that frame as a C string, which
  is the whole body when the body has no zero byte.
\<close>

theorem skip_unknown_frame:
  assumes "drop pos fp = uid @ size_bytes (length b1) @ fl1 @ b1 @
                         kid @ size_bytes (length b2) @ fl2 @ b2 @ rest"
    and "length uid = 4" and "uid ! 0 \<noteq> NUL" and "c_str uid \<notin> known_ids"
    and "length fl1 = 2" and "length b1 < INT_MAX"
    and "kid \<in> known_ids" and "length fl2 = 2" and "length b2 < INT_MAX"
    and "pos + 10 + length b1 < tagEnd"
  shows "frames_read fp tagEnd pos =
           map_option (\<lambda>fs. (uid, b1) # (kid, b2) # fs)
             (frames_read fp tagEnd (pos + 10 + length b1 + 10 + length b2)) \<and>
         parse_frames fp tagEnd pos data =
           parse_frames fp tagEnd (pos + 10 + length b1 + 10 + length b2)
             (store_frame kid b2 data) \<and>
         field_of kid (store_frame kid b2 data) = Some (c_str b2) \<and>
         (NUL \<notin> set b2 \<longrightarrow> c_str b2 = b2)"
proof -
  note two = two_frames [OF assms(1,2,3,5,6) known_id_props(1,2) [OF assms(7)] assms(8,9,10)]
  have "frames_read fp tagEnd pos =
      frame_loop (\<lambda>frameId content fs. fs @ [(frameId, content)]) fp tagEnd
        (pos + 10 + length b1 + 10 + length b2) [(uid, b1), (kid, b2)]"
    unfolding frames_read_def by (simp add: two)
  moreover have "(@) [(uid, b1), (kid, b2)] = (\<lambda>fs. (uid, b1) # (kid, b2) # fs)"
    by (rule ext) simp
  ultimately have fr: "frames_read fp tagEnd pos =
      map_option (\<lambda>fs. (uid, b1) # (kid, b2) # fs)
        (frames_read fp tagEnd (pos + 10 + length b1 + 10 + length b2))"
    by (simp only: frames_read_acc)
  have pf: "parse_frames fp tagEnd pos data =
      parse_frames fp tagEnd (pos + 10 + length b1 + 10 + length b2) (store_frame kid b2 data)"
    unfolding parse_frames_def using assms(4) by (simp add: two store_frame_unknown)
  show ?thesis
    using fr pf assms(7) by (simp add: field_of_store_frame c_str_clean)
qed

theorem skip_unknown_frame_witness:
  "parse_frames skip_file 38 10 create_tag_data =
     Some (create_tag_data\<lparr>title := Some ''Hello''\<rparr>)"
proof -
  have lay: "drop 10 skip_file =
      ''XYYZ'' @ size_bytes (length ''abc'') @ [CHR 0x00, CHR 0x00] @ ''abc'' @
      ''TIT2'' @ size_bytes (length ''Hello'') @ [CHR 0x00, CHR 0x00] @ ''Hello'' @ []"
    unfolding size_bytes_lengths by (simp add: skip_file_def)
  have "parse_frames skip_file 38 10 create_tag_data =
      parse_frames skip_file 38 (10 + 10 + length ''abc'' + 10 + length ''Hello'')
        (store_frame ''TIT2'' ''Hello'' create_tag_data)"
    by (rule skip_unknown_frame [OF lay, THEN conjunct2, THEN conjunct1])
       (simp_all add: NUL_def c_str_def known_ids_def INT_MAX_def)
  moreover have "parse_frames skip_file 38 38 d = Some d" for d
    unfolding parse_frames_def by (rule frame_loop_stop) simp
  moreover have "store_frame ''TIT2'' ''Hello'' create_tag_data =
      create_tag_data\<lparr>title := Some ''Hello''\<rparr>"
    by (simp add: store_frame_def c_str_def NUL_def)
  ultimately show ?thesis by simp
qed

section \<open>A zero byte inside a frame\<close>

text \<open>
  Claim C9. A frame with one of the six ids whose body is \<open>p\<close>, a zero byte, and
  anything after it, where \<open>p\<close> has no zero byte: the loop stores \<open>p\<close> in the field,
  which is shorter than the body, and goes on behind the frame. The record does not
  depend on what follows the zero byte: two bodies that differ only there give the same
  record.
\<close>

theorem embedded_zero_truncates:
  assumes "drop pos fp = kid @ size_bytes (length (p @ NUL # s)) @ fl @ (p @ NUL # s) @ rest"
    and "kid \<in> known_ids" and "length fl = 2" and "length (p @ NUL # s) < INT_MAX"
    and "pos < tagEnd" and "NUL \<notin> set p"
  shows "parse_frames fp tagEnd pos data =
           parse_frames fp tagEnd (pos + 10 + length (p @ NUL # s)) (store_frame kid p data) \<and>
         field_of kid (store_frame kid p data) = Some p \<and>
         length p < length (p @ NUL # s) \<and>
         (\<forall>s'. store_frame kid (p @ NUL # s') data = store_frame kid p data)"
proof -
  have same: "store_frame kid (p @ NUL # t) data = store_frame kid p data" for t
    using store_frame_c_str [of kid "p @ NUL # t" data] assms(6)
    by (simp add: c_str_prefix)
  have "frame_loop store_frame fp tagEnd pos data =
      frame_loop store_frame fp tagEnd (pos + 10 + length (p @ NUL # s))
        (store_frame kid (p @ NUL # s) data)"
    using assms(5,1) known_id_props(1) [OF assms(2)] assms(3) known_id_props(2) [OF assms(2)]
      assms(4)
    by (rule frame_loop_frame)
  then show ?thesis
    using assms(2,6) same
    by (simp add: parse_frames_def field_of_store_frame c_str_clean)
qed

theorem embedded_zero_truncates_witness:
  "parse_frames zero_file 25 10 create_tag_data =
     Some (create_tag_data\<lparr>title := Some ''Hi''\<rparr>)"
proof -
  have lay: "drop 10 zero_file =
      ''TIT2'' @ size_bytes (length (''Hi'' @ NUL # ''xy'')) @ [CHR 0x00, CHR 0x00] @
      (''Hi'' @ NUL # ''xy'') @ []"
    unfolding size_bytes_lengths by (simp add: zero_file_def NUL_def)
  have "parse_frames zero_file 25 10 create_tag_data =
      parse_frames zero_file 25 (10 + 10 + length (''Hi'' @ NUL # ''xy''))
        (store_frame ''TIT2'' ''Hi'' create_tag_data)"
    by (rule embedded_zero_truncates [OF lay, THEN conjunct1])
       (simp_all add: NUL_def known_ids_def INT_MAX_def)
  moreover have "parse_frames zero_file 25 25 d = Some d" for d
    unfolding parse_frames_def by (rule frame_loop_stop) simp
  moreover have "store_frame ''TIT2'' ''Hi'' create_tag_data =
      create_tag_data\<lparr>title := Some ''Hi''\<rparr>"
    by (simp add: store_frame_def c_str_def NUL_def)
  ultimately show ?thesis by simp
qed

section \<open>The last frame of an id wins\<close>

text \<open>What the reader returns for a file that has the ten header bytes and the magic.\<close>

lemma read_id3_tags_tagged:
  assumes "check_id3_tag_presence filename"
    and "fopen_rb w filename = Some fp"
    and "10 \<le> length fp"
    and "take 3 fp = ''ID3''"
  shows "read_id3_tags w filename =
    map_option (\<lambda>r. (Inr r, call w (OpenRead filename)))
      (parse_frames fp (10 + tag_size (take 10 fp)) 10
         (create_tag_data\<lparr>version := Some (version_string (fp ! 3) (fp ! 4))\<rparr>))"
proof -
  have hdr: "tag_size (fread fp 0 10) = tag_size (take 10 fp)" by (simp add: fread_def)
  have len: "length (fread fp 0 10) = 10" using assms(3) by (simp add: fread_def)
  have magic: "take 3 (fread fp 0 10) = ''ID3''" using assms(4) by (simp add: fread_def min_def)
  have nth: "fread fp 0 10 ! 3 = fp ! 3" "fread fp 0 10 ! 4 = fp ! 4"
    by (simp_all add: fread_def)
  show ?thesis
    using assms(1,2) by (simp add: read_id3_tags_def hdr len magic nth Let_def)
qed

text \<open>
  A file with two title frames, followed by a frame header whose first size byte is 0x80
  (the frame size is negative and \<open>malloc\<close> returns \<open>NULL\<close>).
\<close>

lemma frames_read_twice_cut_file:
  "frames_read twice_cut_file (10 + tag_size (take 10 twice_cut_file)) 10 =
     Some [(''TIT2'', ''One''), (''TIT2'', ''Two'')]"
proof -
  let ?fs = "[(''TIT2'', ''One''), (''TIT2'', ''Two'')]"
  let ?act = "\<lambda>frameId content fs. fs @ [(frameId, content)]"
  have sz: "tag_size (take 10 twice_cut_file) = 40"
    by (simp add: twice_cut_file_def tag_size_def)
  have lay: "drop 10 twice_cut_file =
      concat (map (\<lambda>(i, b). frame_bytes i b) ?fs) @
      ''TPE1'' @ [CHR 0x80, CHR 0x00, CHR 0x00, CHR 0x00] @ [CHR 0x00, CHR 0x00] @ ''Nobody''"
    by (simp add: twice_cut_file_def frame_bytes_def size_bytes_Suc3 NUL_def)
  have ok: "\<forall>(i, b) \<in> set ?fs. length i = 4 \<and> i ! 0 \<noteq> NUL \<and> length b < INT_MAX"
    by (simp add: NUL_def INT_MAX_def)
  have bnd: "?fs \<noteq> [] \<longrightarrow>
      10 + length (concat (map (\<lambda>(i, b). frame_bytes i b) (butlast ?fs))) < 50"
    by (simp add: frame_bytes_def)
  have s1: "frame_loop ?act twice_cut_file 50 10 [] =
      frame_loop ?act twice_cut_file 50
        (10 + length (concat (map (\<lambda>(i, b). frame_bytes i b) ?fs)))
        (foldl (\<lambda>a (i, b). ?act i b a) [] ?fs)"
    using ok lay bnd by (rule frame_loop_frames)
  have "fread twice_cut_file 40 4 = [CHR 0x80, CHR 0x00, CHR 0x00, CHR 0x00]"
    by (simp add: fread_def twice_cut_file_def)
  then have "frame_size (fread twice_cut_file (36 + 4) 4) = - 2147483648"
    by (simp add: frame_size_def int32_def)
  then have "malloc_null (int32 (frame_size (fread twice_cut_file (36 + 4) 4) + 1))"
    by (simp add: malloc_null_def int32_def)
  then have s2: "frame_loop ?act twice_cut_file 50 36 acc = Some acc" for acc
    by (rule frame_loop_break)
  have "length (concat (map (\<lambda>(i, b). frame_bytes i b) ?fs)) = 26"
    by (simp add: frame_bytes_def)
  with s1 s2 show ?thesis
    by (simp add: frames_read_def sz)
qed

lemma read_twice_cut_file:
  assumes "check_id3_tag_presence filename" and "fopen_rb w filename = Some twice_cut_file"
  shows "read_id3_tags w filename =
    Some (Inr \<lparr>version = Some ''ID3v2.3.0'', title = Some ''Two'', artist = None,
      album = None, year = None, comment = None, genre = None\<rparr>,
      call w (OpenRead filename))"
proof -
  have ver: "version_string (twice_cut_file ! 3) (twice_cut_file ! 4) = ''ID3v2.3.0''"
    by (simp add: twice_cut_file_def version_string_def dec.simps char_of_digits)
  have "read_id3_tags w filename =
    map_option (\<lambda>r. (Inr r, call w (OpenRead filename)))
      (parse_frames twice_cut_file (10 + tag_size (take 10 twice_cut_file)) 10
         (create_tag_data\<lparr>version :=
            Some (version_string (twice_cut_file ! 3) (twice_cut_file ! 4))\<rparr>))"
    using assms by (rule read_id3_tags_tagged) (simp_all add: twice_cut_file_def)
  then show ?thesis
    unfolding parse_frames_def frame_loop_fold [of store_frame] frames_read_twice_cut_file ver
    by (simp add: store_frame_def c_str_def NUL_def create_tag_data_def)
qed

text \<open>
  Claim C8. Take a file that the validator accepts and that opens, with the ten header
  bytes and the magic \<open>ID3\<close>, and let \<open>fs\<close> be the frames the loop reads completely
  before it stops, for whatever reason it stops. Then \<open>read_id3_tags\<close> returns a
  record, and for each of the six ids the field of the record holds the content (as a C
  string) of the last frame in \<open>fs\<close> with that id, and is absent when \<open>fs\<close> has no
  such frame: each later frame replaces the value of an earlier one. The loop has no
  list of frames only when it stores beyond its buffer; then the read has no result
  either.
\<close>

theorem last_occurrence_wins:
  assumes "check_id3_tag_presence filename"
    and "fopen_rb w filename = Some fp"
    and "10 \<le> length fp"
    and "take 3 fp = ''ID3''"
    and "k \<in> known_ids"
  shows "case frames_read fp (10 + tag_size (take 10 fp)) 10 of
      None \<Rightarrow> read_id3_tags w filename = None
    | Some fs \<Rightarrow>
        \<exists>r. read_id3_tags w filename = Some (Inr r, call w (OpenRead filename)) \<and>
          field_of k r =
            (if filter (\<lambda>(i, c). c_str i = k) fs = [] then None
             else Some (c_str (snd (last (filter (\<lambda>(i, c). c_str i = k) fs)))))"
proof -
  let ?d = "create_tag_data\<lparr>version := Some (version_string (fp ! 3) (fp ! 4))\<rparr>"
  have rd: "read_id3_tags w filename =
      map_option (\<lambda>r. (Inr r, call w (OpenRead filename)))
        (map_option (foldl (\<lambda>a (i, c). store_frame i c a) ?d)
           (frames_read fp (10 + tag_size (take 10 fp)) 10))"
    unfolding read_id3_tags_tagged [OF assms(1-4)] parse_frames_def
      frame_loop_fold [of store_frame] ..
  have "field_of k ?d = None"
    by (simp add: field_of_def create_tag_data_def)
  with field_of_foldl [OF assms(5), of ?d] show ?thesis
    by (simp add: rd split: option.splits)
qed

theorem last_occurrence_wins_witness:
  "frames_read twice_cut_file (10 + tag_size (take 10 twice_cut_file)) 10 =
     Some [(''TIT2'', ''One''), (''TIT2'', ''Two'')] \<and>
   (\<exists>r. read_id3_tags (plain_world [''two.mp3'' \<mapsto> twice_cut_file]) ''two.mp3'' =
          Some (Inr r, call (plain_world [''two.mp3'' \<mapsto> twice_cut_file]) (OpenRead ''two.mp3'')) \<and>
        title r = Some ''Two'')"
proof -
  have "10 \<le> length twice_cut_file" "take 3 twice_cut_file = ''ID3''"
    by (simp_all add: twice_cut_file_def)
  with last_occurrence_wins [of "''two.mp3''" "plain_world [''two.mp3'' \<mapsto> twice_cut_file]"
      twice_cut_file "''TIT2''"]
  show ?thesis
    by (simp add: frames_read_twice_cut_file check_id3_tag_presence_def known_ids_def
        field_of_def c_str_def NUL_def)
qed

section \<open>The writer, branch by branch\<close>

lemma copy_loop_eq: "copy_loop fp_orig pos fp_temp = fp_temp @ drop pos fp_orig"
proof (induction fp_orig pos fp_temp rule: copy_loop.induct)
  case (1 fp_orig pos fp_temp)
  show ?case
  proof (cases "0 < length (fread fp_orig pos 1024)")
    case True
    have "drop (pos + length (fread fp_orig pos 1024)) fp_orig
        = drop (length (take 1024 (drop pos fp_orig))) (drop pos fp_orig)"
      by (simp add: fread_def add.commute)
    also have "\<dots> = drop 1024 (drop pos fp_orig)"
      by (cases "1024 \<le> length (drop pos fp_orig)") (simp_all add: min_def)
    finally have "take 1024 (drop pos fp_orig) @ drop (pos + length (fread fp_orig pos 1024)) fp_orig
        = drop pos fp_orig"
      by (simp only: append_take_drop_id)
    with True 1 show ?thesis
      by (subst copy_loop.simps) (simp add: fread_def)
  next
    case False
    then show ?thesis by (subst copy_loop.simps) (simp add: fread_def)
  qed
qed

lemma frame_bytes_spec_frame:
  "length frame_id = 4 \<Longrightarrow> frame_bytes frame_id s = spec_frame frame_id (Some s)"
  by (simp add: frame_bytes_def spec_frame_def size_bytes_big_endian32 NUL_def)

lemma write_frame_fits:
  "field_fits content \<Longrightarrow> length frame_id = 4 \<Longrightarrow>
   write_frame fp frame_id content = Some (fp @ spec_frame frame_id content)"
  by (cases content)
     (simp_all add: write_frame_def field_fits_def frame_bytes_spec_frame, simp add: spec_frame_def)

lemma write_frame_None: "write_frame fp frame_id content = None \<longleftrightarrow> \<not> field_fits content"
  by (cases content) (simp_all add: write_frame_def field_fits_def)

lemma write_frames_fits:
  assumes "tag_fits data"
  shows "write_frames fp data =
    Some (fp @ spec_frame ''TIT2'' (title data) @ spec_frame ''TPE1'' (artist data) @
      spec_frame ''TALB'' (album data) @ spec_frame ''TYER'' (year data) @
      spec_frame ''COMM'' (comment data) @ spec_frame ''TCON'' (genre data))"
  using assms by (simp add: write_frames_def tag_fits_def write_frame_fits)

lemma write_frames_None: "write_frames fp data = None \<longleftrightarrow> \<not> tag_fits data"
  by (auto simp add: write_frames_def tag_fits_def write_frame_None bind_eq_None_conv
      write_frame_fits)

lemma rewritten_eq:
  "tag_fits data \<Longrightarrow> 10 \<le> length orig \<Longrightarrow>
   map_option (copy_loop orig 300) (write_frames (fread orig 0 10) data) = Some (rewritten orig data)"
  by (simp add: write_frames_fits copy_loop_eq rewritten_def fread_def)

text \<open>
  The read of the header, after the temporary file has been opened, delivers ten bytes
  exactly when the original is another file than the temporary one and holds ten bytes.
\<close>

lemma header_read_10:
  "length (fread (contents (wb_world w temp_name) i) 0 10) = 10 \<longleftrightarrow>
   wb_file w temp_name \<noteq> i \<and> 10 \<le> length (contents w i)"
  by (auto simp add: fread_def wb_world_def)

text \<open>A path that leads to the entry of the temporary file is opened on the same file.\<close>

lemma same_entry_same_file:
  "open_file w filename = Some i \<Longrightarrow> entry w filename = entry w temp_name \<Longrightarrow>
   wb_file w temp_name = i"
  by (auto simp add: open_file_def wb_file_def split: if_splits)

lemma replaced_eq:
  assumes "dir w (entry w filename) = Some i" and "wb_file w temp_name \<noteq> i"
  shows "rename_file (call (unlinked (call (written (wb_world (opened w filename) temp_name)
            (wb_file w temp_name) out) (Remove filename)) filename) (Rename temp_name filename))
           temp_name filename =
         (if may_rename w temp_name filename then Some (replaced w filename out) else None)"
proof -
  have ne: "entry w filename \<noteq> entry w temp_name"
    using assms by (auto simp add: wb_file_def)
  show ?thesis
    using ne
    by (simp add: rename_file_def unlinked_def written_def wb_world_def replaced_def call_def
        opened_def fun_upd_twist)
qed

text \<open>The writer, branch by branch, for a record whose lengths fit.\<close>

lemma write_id3_tags_fits:
  assumes "tag_fits data"
  shows "write_id3_tags w filename data = Some
    (if \<not> check_id3_tag_presence filename then (Inl NotMp3File, w)
     else case open_file w filename of
       None \<Rightarrow> (Inl CannotOpenOriginal, call w (OpenRead filename))
     | Some i \<Rightarrow>
         if \<not> may_create w temp_name then (Inl CannotOpenTemp, opened w filename)
         else if wb_file w temp_name = i \<or> length (contents w i) < 10
           then (Inl HeaderReadFailed, wb_world (opened w filename) temp_name)
         else if \<not> may_remove w filename
           then (Inl RemoveFailed,
                 call (written (wb_world (opened w filename) temp_name) (wb_file w temp_name)
                         (rewritten (contents w i) data)) (Remove filename))
         else if \<not> may_rename w temp_name filename
           then (Inl RenameFailed,
                 call (unlinked (call (written (wb_world (opened w filename) temp_name)
                         (wb_file w temp_name) (rewritten (contents w i) data))
                         (Remove filename)) filename)
                   (Rename temp_name filename))
         else (Inr (), replaced w filename (rewritten (contents w i) data)))"
proof (cases "check_id3_tag_presence filename \<and> open_file w filename \<noteq> None \<and> may_create w temp_name")
  case False
  then show ?thesis
    by (auto simp add: write_id3_tags_def Let_def opened_def fopen_wb_def split: option.splits)
next
  case True
  then obtain i where i: "open_file w filename = Some i" by auto
  then have di: "dir w (entry w filename) = Some i"
    by (simp add: open_file_def split: if_splits)
  have wo: "fopen_wb (opened w filename) temp_name =
      Some (wb_file w temp_name, wb_world (opened w filename) temp_name)"
    using True by (simp add: fopen_wb_def)
  have rd: "contents (wb_world (opened w filename) temp_name) i =
      contents (wb_world w temp_name) i"
    by (simp add: wb_world_def)
  show ?thesis
  proof (cases "wb_file w temp_name = i \<or> length (contents w i) < 10")
    case short: True
    then have "length (fread (contents (wb_world w temp_name) i) 0 10) \<noteq> 10"
      by (auto simp add: header_read_10)
    with True i short show ?thesis
      by (simp add: write_id3_tags_def Let_def opened_def [symmetric] wo rd)
  next
    case long: False
    then have ne: "wb_file w temp_name \<noteq> i" and len: "10 \<le> length (contents w i)"
      by simp_all
    have same: "contents (wb_world w temp_name) i = contents w i"
      using ne by (simp add: wb_world_def)
    obtain framed where framed: "write_frames (fread (contents w i) 0 10) data = Some framed"
      using assms write_frames_None [of "fread (contents w i) 0 10" data] by auto
    with rewritten_eq [OF assms len]
    have cl: "copy_loop (contents w i) 300 framed = rewritten (contents w i) data"
      by simp
    have hl: "length (fread (contents w i) 0 10) = 10" using len by (simp add: fread_def)
    have ent: "entry w filename \<noteq> entry w temp_name"
      using same_entry_same_file [OF i] ne by auto
    have rm: "remove_file (call (written (wb_world (opened w filename) temp_name)
          (wb_file w temp_name) out) (Remove filename)) filename =
        (if may_remove w filename
         then Some (unlinked (call (written (wb_world (opened w filename) temp_name)
                 (wb_file w temp_name) out) (Remove filename)) filename)
         else None)" for out
      using di ent by (simp add: remove_file_def written_def wb_world_def)
    show ?thesis
      unfolding write_id3_tags_def
      using True i long
      by (simp add: Let_def opened_def [symmetric] wo rd same hl framed cl rm
          replaced_eq [OF di ne])
  qed
qed

text \<open>The writer for a record with a length that does not fit: the branches before the frames.\<close>

lemma write_id3_tags_unfit:
  assumes "\<not> tag_fits data"
  shows "write_id3_tags w filename data =
    (if \<not> check_id3_tag_presence filename then Some (Inl NotMp3File, w)
     else case open_file w filename of
       None \<Rightarrow> Some (Inl CannotOpenOriginal, call w (OpenRead filename))
     | Some i \<Rightarrow>
         if \<not> may_create w temp_name then Some (Inl CannotOpenTemp, opened w filename)
         else if wb_file w temp_name = i \<or> length (contents w i) < 10
           then Some (Inl HeaderReadFailed, wb_world (opened w filename) temp_name)
         else None)"
proof (cases "check_id3_tag_presence filename \<and> open_file w filename \<noteq> None \<and> may_create w temp_name")
  case False
  then show ?thesis
    by (auto simp add: write_id3_tags_def Let_def opened_def fopen_wb_def split: option.splits)
next
  case True
  then obtain i where i: "open_file w filename = Some i" by auto
  have wo: "fopen_wb (opened w filename) temp_name =
      Some (wb_file w temp_name, wb_world (opened w filename) temp_name)"
    using True by (simp add: fopen_wb_def)
  have rd: "contents (wb_world (opened w filename) temp_name) i =
      contents (wb_world w temp_name) i"
    by (simp add: wb_world_def)
  show ?thesis
  proof (cases "wb_file w temp_name = i \<or> length (contents w i) < 10")
    case short: True
    then have "length (fread (contents (wb_world w temp_name) i) 0 10) \<noteq> 10"
      by (auto simp add: header_read_10)
    with True i short show ?thesis
      by (simp add: write_id3_tags_def Let_def opened_def [symmetric] wo rd)
  next
    case long: False
    then have ne: "wb_file w temp_name \<noteq> i" and len: "10 \<le> length (contents w i)"
      by simp_all
    have same: "contents (wb_world w temp_name) i = contents w i"
      using ne by (simp add: wb_world_def)
    have wf: "write_frames (fread (contents w i) 0 10) data = None"
      using assms by (simp add: write_frames_None)
    have hl: "length (fread (contents w i) 0 10) = 10" using len by (simp add: fread_def)
    show ?thesis
      unfolding write_id3_tags_def
      using True i long
      by (simp add: Let_def opened_def [symmetric] wo rd same hl wf)
  qed
qed

lemma write_id3_tags_success_fits:
  "write_id3_tags w filename data = Some (Inr (), w') \<Longrightarrow> tag_fits data"
  using write_id3_tags_unfit [of data w filename]
  by (cases "tag_fits data") (auto split: if_splits option.splits)

lemma write_id3_tags_success:
  assumes "write_id3_tags w filename data = Some (Inr (), w')"
    and "files w filename = Some orig"
  shows "check_id3_tag_presence filename" and "may_open w filename"
    and "10 \<le> length orig" and "tag_fits data"
    and "w' = replaced w filename (rewritten orig data)"
proof -
  have fits: "tag_fits data" using assms(1) by (rule write_id3_tags_success_fits)
  obtain i where di: "dir w (entry w filename) = Some i" and orig: "orig = contents w i"
    using assms(2) by (auto simp add: files_def)
  have op: "open_file w filename = (if may_open w filename then Some i else None)"
    using di by (simp add: open_file_def)
  have all: "check_id3_tag_presence filename \<and> may_open w filename \<and>
      10 \<le> length orig \<and> w' = replaced w filename (rewritten orig data)"
    using assms(1) unfolding write_id3_tags_fits [OF fits] op orig
    by (auto split: if_splits)
  show "check_id3_tag_presence filename" "may_open w filename"
    "10 \<le> length orig" "tag_fits data"
    "w' = replaced w filename (rewritten orig data)"
    using all fits by simp_all
qed

text \<open>The writer on a file of a plain world that is not the temporary file.\<close>

lemma write_plain_world:
  assumes "tag_fits data" and "check_id3_tag_presence filename" and "filename \<noteq> temp_name"
    and "fs filename = Some orig" and "10 \<le> length orig"
  shows "write_id3_tags (plain_world fs) filename data =
    Some (Inr (), replaced (plain_world fs) filename (rewritten orig data))"
proof -
  have op: "open_file (plain_world fs) filename = Some (Initial filename)"
    using assms(4) by (simp add: open_file_def plain_world_def)
  have tmp: "wb_file (plain_world fs) temp_name \<noteq> Initial filename"
    using assms(3) by (simp add: wb_file_def plain_world_def split: option.splits)
  have c: "contents (plain_world fs) (Initial filename) = orig"
    using assms(4) by (simp add: plain_world_def)
  have m: "may_create (plain_world fs) temp_name" "may_remove (plain_world fs) filename"
    "may_rename (plain_world fs) temp_name filename"
    by (simp_all add: plain_world_def)
  show ?thesis
    using assms(2,5) tmp m
    by (simp add: write_id3_tags_fits [OF assms(1)] op c)
qed

lemma check_a_mp3: "check_id3_tag_presence ''a.mp3''"
  by (simp add: check_id3_tag_presence_def)

section \<open>What a successful write leaves in the file\<close>

text \<open>
  Claim C2. Whenever \<open>write_id3_tags\<close> returns success on a file with contents
  \<open>orig\<close>, that file had at least ten bytes and afterwards holds exactly
  \<open>rewritten orig data\<close>: the first ten bytes of \<open>orig\<close>, then for each field that is
  present, in the order title, artist, album, year, comment, genre, the frame id, the
  length of the value big-endian in four bytes, two zero bytes and the value, then
  \<open>orig\<close> from offset 300 on. Every length fits an \<open>int\<close>, so the four bytes are the
  length itself (\<open>be_value_big_endian32\<close>).
\<close>

theorem write_layout:
  assumes "write_id3_tags w filename data = Some (Inr (), w')"
    and "files w filename = Some orig"
  shows "10 \<le> length orig \<and> files w' filename = Some (rewritten orig data) \<and> tag_fits data"
proof -
  note ws = write_id3_tags_success [OF assms]
  show ?thesis
    using ws(3,4) by (simp add: ws(5))
qed

theorem write_layout_witness:
  "write_id3_tags (plain_world [''a.mp3'' \<mapsto> audio_file]) ''a.mp3'' two_field_tag =
     Some (Inr (),
       replaced (plain_world [''a.mp3'' \<mapsto> audio_file]) ''a.mp3''
         (rewritten audio_file two_field_tag)) \<and>
   files (replaced (plain_world [''a.mp3'' \<mapsto> audio_file]) ''a.mp3''
            (rewritten audio_file two_field_tag)) ''a.mp3'' =
     Some (replicate 10 (CHR ''h'') @
       ''TIT2'' @ [CHR 0x00, CHR 0x00, CHR 0x00, CHR 0x02, CHR 0x00, CHR 0x00] @ ''Hi'' @
       ''TCON'' @ [CHR 0x00, CHR 0x00, CHR 0x00, CHR 0x04, CHR 0x00, CHR 0x00] @ ''Rock'' @
       ''AUDIO'')"
proof -
  have fits: "tag_fits two_field_tag"
    by (simp add: tag_fits_def field_fits_def two_field_tag_def create_tag_data_def INT_MAX_def)
  have h1: "write_id3_tags (plain_world [''a.mp3'' \<mapsto> audio_file]) ''a.mp3'' two_field_tag =
     Some (Inr (),
       replaced (plain_world [''a.mp3'' \<mapsto> audio_file]) ''a.mp3''
         (rewritten audio_file two_field_tag))"
    using fits check_a_mp3
    by (rule write_plain_world) (simp_all add: temp_name_def audio_file_def)
  have h2: "files (plain_world [''a.mp3'' \<mapsto> audio_file]) ''a.mp3'' = Some audio_file"
    by simp
  have r: "rewritten audio_file two_field_tag = replicate 10 (CHR ''h'') @
       ''TIT2'' @ [CHR 0x00, CHR 0x00, CHR 0x00, CHR 0x02, CHR 0x00, CHR 0x00] @ ''Hi'' @
       ''TCON'' @ [CHR 0x00, CHR 0x00, CHR 0x00, CHR 0x04, CHR 0x00, CHR 0x00] @ ''Rock'' @
       ''AUDIO''"
    by (simp add: rewritten_def spec_frame_def big_endian32_def two_field_tag_def
        create_tag_data_def audio_file_def char_of_def bit_iff_odd drop_bit_eq_div)
  from write_layout [OF h1 h2] h1 r show ?thesis by simp
qed

section \<open>When the writer succeeds and when it fails\<close>

text \<open>
  Claim C10. The writer never looks at the contents of the ten header bytes. For a record
  whose lengths fit an \<open>int\<close>: if the path passes the validator, the file opens (the
  stream is on the file \<open>fp_orig\<close>), the temporary file can be opened, the read of the
  first ten bytes then delivers ten bytes, and \<open>remove\<close> and \<open>rename\<close> are let
  through, then the write succeeds and the file is \<open>rewritten\<close> from what it held,
  whatever the ten bytes are. By \<open>header_read_10\<close> the read delivers ten bytes exactly
  when the file holds ten bytes and is not the file that opening \<open>temp.mp3\<close> empties.
  For any record, a failure return is one of six: the validator rejects the path, the
  original cannot be opened, the temporary file cannot be opened, the header read is
  short, \<open>remove\<close> is refused, or \<open>rename\<close> is refused.
\<close>

theorem write_ignores_magic:
  "(tag_fits data \<and> check_id3_tag_presence filename \<and> open_file w filename = Some fp_orig \<and>
    may_create w temp_name \<and>
    length (fread (contents (wb_world w temp_name) fp_orig) 0 10) = 10 \<and>
    may_remove w filename \<and> may_rename w temp_name filename
    \<longrightarrow> (\<exists>w'. write_id3_tags w filename data = Some (Inr (), w') \<and>
           files w' filename = Some (rewritten (contents w fp_orig) data)))
   \<and> (\<forall>e w'. write_id3_tags w filename data = Some (Inl e, w') \<longrightarrow>
        e = NotMp3File \<and> \<not> check_id3_tag_presence filename
      \<or> e = CannotOpenOriginal \<and> open_file w filename = None
      \<or> e = CannotOpenTemp \<and> \<not> may_create w temp_name
      \<or> e = HeaderReadFailed \<and>
          (\<exists>i. open_file w filename = Some i \<and>
             length (fread (contents (wb_world w temp_name) i) 0 10) \<noteq> 10)
      \<or> e = RemoveFailed \<and> \<not> may_remove w filename
      \<or> e = RenameFailed \<and> \<not> may_rename w temp_name filename)"
proof (intro conjI impI allI)
  assume a: "tag_fits data \<and> check_id3_tag_presence filename \<and>
    open_file w filename = Some fp_orig \<and> may_create w temp_name \<and>
    length (fread (contents (wb_world w temp_name) fp_orig) 0 10) = 10 \<and>
    may_remove w filename \<and> may_rename w temp_name filename"
  then have ne: "wb_file w temp_name \<noteq> fp_orig" and len: "10 \<le> length (contents w fp_orig)"
    by (simp_all add: header_read_10)
  from a have "write_id3_tags w filename data =
    Some (Inr (), replaced w filename (rewritten (contents w fp_orig) data))"
    using ne len by (simp add: write_id3_tags_fits)
  then show "\<exists>w'. write_id3_tags w filename data = Some (Inr (), w') \<and>
           files w' filename = Some (rewritten (contents w fp_orig) data)"
    by simp
next
  fix e w'
  assume f: "write_id3_tags w filename data = Some (Inl e, w')"
  show "e = NotMp3File \<and> \<not> check_id3_tag_presence filename
      \<or> e = CannotOpenOriginal \<and> open_file w filename = None
      \<or> e = CannotOpenTemp \<and> \<not> may_create w temp_name
      \<or> e = HeaderReadFailed \<and>
          (\<exists>i. open_file w filename = Some i \<and>
             length (fread (contents (wb_world w temp_name) i) 0 10) \<noteq> 10)
      \<or> e = RemoveFailed \<and> \<not> may_remove w filename
      \<or> e = RenameFailed \<and> \<not> may_rename w temp_name filename"
  proof (cases "tag_fits data")
    case True
    from f show ?thesis
      unfolding write_id3_tags_fits [OF True] header_read_10
      by (auto split: if_splits option.splits)
  next
    case False
    from f show ?thesis
      unfolding write_id3_tags_unfit [OF False] header_read_10
      by (auto split: if_splits option.splits)
  qed
qed

theorem write_ignores_magic_witness:
  "\<exists>w'. write_id3_tags (plain_world [''noise.mp3'' \<mapsto> ''not a tag at all'']) ''noise.mp3''
          two_field_tag = Some (Inr (), w') \<and>
        files w' ''noise.mp3'' = Some (rewritten ''not a tag at all'' two_field_tag)"
  using write_ignores_magic [of two_field_tag "''noise.mp3''"
      "plain_world [''noise.mp3'' \<mapsto> ''not a tag at all'']" "Initial ''noise.mp3''",
      THEN conjunct1]
  by (simp add: tag_fits_def field_fits_def two_field_tag_def create_tag_data_def INT_MAX_def
      check_id3_tag_presence_def open_file_def plain_world_def temp_name_def fread_def
      wb_world_def wb_file_def)

section \<open>A target that is the temporary file\<close>

text \<open>
  A write to \<open>temp.mp3\<close> itself, to another spelling of that path, or to a hard link to
  that file fails at the header, and leaves the file empty: opening the temporary file
  has emptied the file the original stream is on.
\<close>

lemma write_same_file:
  assumes "tag_fits data" and "check_id3_tag_presence filename"
    and "open_file w filename = Some i" and "dir w (entry w temp_name) = Some i"
    and "may_create w temp_name"
  shows "write_id3_tags w filename data =
           Some (Inl HeaderReadFailed, wb_world (opened w filename) temp_name)"
proof -
  have "wb_file w temp_name = i" using assms(4) by (simp add: wb_file_def)
  then show ?thesis
    using assms(2,3,5) by (simp add: write_id3_tags_fits [OF assms(1)])
qed

lemma emptied_same_file:
  assumes "open_file w filename = Some i" and "dir w (entry w temp_name) = Some i"
  shows "files (wb_world (opened w filename) temp_name) filename = Some []"
proof -
  have "wb_file w temp_name = i" using assms(2) by (simp add: wb_file_def)
  moreover have "dir w (entry w filename) = Some i"
    using assms(1) by (simp add: open_file_def split: if_splits)
  ultimately show ?thesis
    by (simp add: files_def wb_world_def)
qed

lemma two_field_tag_fits: "tag_fits two_field_tag"
  by (simp add: tag_fits_def field_fits_def two_field_tag_def create_tag_data_def INT_MAX_def)

lemma write_temp_itself:
  "write_id3_tags (plain_world [''temp.mp3'' \<mapsto> audio_file]) ''temp.mp3'' two_field_tag =
     Some (Inl HeaderReadFailed,
       wb_world (opened (plain_world [''temp.mp3'' \<mapsto> audio_file]) ''temp.mp3'') temp_name)"
  "files (wb_world (opened (plain_world [''temp.mp3'' \<mapsto> audio_file]) ''temp.mp3'') temp_name)
     ''temp.mp3'' = Some []"
proof -
  let ?w = "plain_world [''temp.mp3'' \<mapsto> audio_file]"
  have chk: "check_id3_tag_presence ''temp.mp3''"
    by (simp add: check_id3_tag_presence_def)
  have op: "open_file ?w ''temp.mp3'' = Some (Initial ''temp.mp3'')"
    and tmp: "dir ?w (entry ?w temp_name) = Some (Initial ''temp.mp3'')"
    and may: "may_create ?w temp_name"
    by (simp_all add: open_file_def plain_world_def temp_name_def)
  show "write_id3_tags ?w ''temp.mp3'' two_field_tag =
     Some (Inl HeaderReadFailed, wb_world (opened ?w ''temp.mp3'') temp_name)"
    using two_field_tag_fits chk op tmp may by (rule write_same_file)
  show "files (wb_world (opened ?w ''temp.mp3'') temp_name) ''temp.mp3'' = Some []"
    using op tmp by (rule emptied_same_file)
qed

lemma write_respelled_temp:
  "write_id3_tags (respelled_world [''temp.mp3'' \<mapsto> audio_file]) ''./temp.mp3'' two_field_tag =
     Some (Inl HeaderReadFailed,
       wb_world (opened (respelled_world [''temp.mp3'' \<mapsto> audio_file]) ''./temp.mp3'') temp_name)"
  "files (wb_world (opened (respelled_world [''temp.mp3'' \<mapsto> audio_file]) ''./temp.mp3'')
            temp_name) ''./temp.mp3'' = Some []"
proof -
  let ?w = "respelled_world [''temp.mp3'' \<mapsto> audio_file]"
  have chk: "check_id3_tag_presence ''./temp.mp3''"
    by (simp add: check_id3_tag_presence_def)
  have op: "open_file ?w ''./temp.mp3'' = Some (Initial ''temp.mp3'')"
    and tmp: "dir ?w (entry ?w temp_name) = Some (Initial ''temp.mp3'')"
    and may: "may_create ?w temp_name"
    by (simp_all add: open_file_def respelled_world_def plain_world_def temp_name_def)
  show "write_id3_tags ?w ''./temp.mp3'' two_field_tag =
     Some (Inl HeaderReadFailed, wb_world (opened ?w ''./temp.mp3'') temp_name)"
    using two_field_tag_fits chk op tmp may by (rule write_same_file)
  show "files (wb_world (opened ?w ''./temp.mp3'') temp_name) ''./temp.mp3'' = Some []"
    using op tmp by (rule emptied_same_file)
qed

lemma write_linked_temp:
  "write_id3_tags (linked_world [''temp.mp3'' \<mapsto> audio_file]) ''link.mp3'' two_field_tag =
     Some (Inl HeaderReadFailed,
       wb_world (opened (linked_world [''temp.mp3'' \<mapsto> audio_file]) ''link.mp3'') temp_name)"
  "files (wb_world (opened (linked_world [''temp.mp3'' \<mapsto> audio_file]) ''link.mp3'')
            temp_name) ''link.mp3'' = Some []"
proof -
  let ?w = "linked_world [''temp.mp3'' \<mapsto> audio_file]"
  have chk: "check_id3_tag_presence ''link.mp3''"
    by (simp add: check_id3_tag_presence_def)
  have op: "open_file ?w ''link.mp3'' = Some (Initial ''temp.mp3'')"
    and tmp: "dir ?w (entry ?w temp_name) = Some (Initial ''temp.mp3'')"
    and may: "may_create ?w temp_name"
    by (simp_all add: open_file_def linked_world_def plain_world_def temp_name_def)
  show "write_id3_tags ?w ''link.mp3'' two_field_tag =
     Some (Inl HeaderReadFailed, wb_world (opened ?w ''link.mp3'') temp_name)"
    using two_field_tag_fits chk op tmp may by (rule write_same_file)
  show "files (wb_world (opened ?w ''link.mp3'') temp_name) ''link.mp3'' = Some []"
    using op tmp by (rule emptied_same_file)
qed

section \<open>Editing a field that does not exist\<close>

text \<open>On which files the reader returns a record.\<close>

lemma read_id3_tags_world:
  "read_id3_tags w filename = Some (r, w1) \<Longrightarrow> w1 = w \<or> w1 = call w (OpenRead filename)"
  by (auto simp add: read_id3_tags_def Let_def split: if_splits option.splits)

lemma read_id3_tags_record:
  "(\<exists>data w1. read_id3_tags w filename = Some (Inr data, w1)) \<longleftrightarrow>
   check_id3_tag_presence filename \<and>
   (\<exists>fp. fopen_rb w filename = Some fp \<and> 10 \<le> length fp \<and> take 3 fp = ''ID3'' \<and>
      frames_read fp (10 + tag_size (take 10 fp)) 10 \<noteq> None)"
proof
  assume "\<exists>data w1. read_id3_tags w filename = Some (Inr data, w1)"
  then obtain data w1 where r: "read_id3_tags w filename = Some (Inr data, w1)" by blast
  then have chk: "check_id3_tag_presence filename"
    by (auto simp add: read_id3_tags_def split: if_splits)
  from r chk obtain fp where fp: "fopen_rb w filename = Some fp"
    by (auto simp add: read_id3_tags_def Let_def split: option.splits)
  from r chk fp have len: "10 \<le> length fp" and magic: "take 3 fp = ''ID3''"
    by (auto simp add: read_id3_tags_def Let_def fread_def min_def split: if_splits)
  from r have "frames_read fp (10 + tag_size (take 10 fp)) 10 \<noteq> None"
    unfolding read_id3_tags_tagged [OF chk fp len magic] parse_frames_def
      frame_loop_fold [of store_frame]
    by auto
  with chk fp len magic show "check_id3_tag_presence filename \<and>
   (\<exists>fp. fopen_rb w filename = Some fp \<and> 10 \<le> length fp \<and> take 3 fp = ''ID3'' \<and>
      frames_read fp (10 + tag_size (take 10 fp)) 10 \<noteq> None)"
    by blast
next
  assume "check_id3_tag_presence filename \<and>
   (\<exists>fp. fopen_rb w filename = Some fp \<and> 10 \<le> length fp \<and> take 3 fp = ''ID3'' \<and>
      frames_read fp (10 + tag_size (take 10 fp)) 10 \<noteq> None)"
  then obtain fp where chk: "check_id3_tag_presence filename"
    and fp: "fopen_rb w filename = Some fp" and len: "10 \<le> length fp"
    and magic: "take 3 fp = ''ID3''"
    and fr: "frames_read fp (10 + tag_size (take 10 fp)) 10 \<noteq> None"
    by blast
  from fr show "\<exists>data w1. read_id3_tags w filename = Some (Inr data, w1)"
    unfolding read_id3_tags_tagged [OF chk fp len magic] parse_frames_def
      frame_loop_fold [of store_frame]
    by auto
qed

text \<open>
  Claim C4, as the code has it. \<open>edit_tag\<close> reads the tag before it looks at the field
  name. For a field name outside the six and any file: when the read returns a record,
  \<open>edit_tag\<close> reports \<open>UnknownTag\<close>; the only call it has made is the reader's
  \<open>fopen\<close> for reading, so no write was attempted, and no file has changed. When the
  read fails with \<open>e\<close>, it reports that failure instead, again without a call other
  than the reader's and without a change to any file. (When the read stores beyond its
  buffer, nothing is defined for either.) The read returns a record exactly for a path
  that the validator accepts and a file that opens, has the ten header bytes and the
  magic \<open>ID3\<close>, and whose frame loop stops without storing beyond its buffer. On a
  file without a tag the report is therefore not \<open>UnknownTag\<close>.
\<close>

theorem edit_unknown_field:
  assumes "tag \<notin> {''title'', ''artist'', ''album'', ''year'', ''comment'', ''genre''}"
  shows "(case read_id3_tags w filename of
            None \<Rightarrow> edit_tag w filename tag val = None
          | Some (Inl e, w1) \<Rightarrow>
              edit_tag w filename tag val = Some (Inl (FailedToReadTags e), w1) \<and>
              files w1 = files w \<and>
              (calls w1 = calls w \<or> calls w1 = calls w @ [OpenRead filename])
          | Some (Inr data, w1) \<Rightarrow>
              edit_tag w filename tag val = Some (Inl UnknownTag, w1) \<and>
              files w1 = files w \<and> calls w1 = calls w @ [OpenRead filename]) \<and>
         ((\<exists>data w1. read_id3_tags w filename = Some (Inr data, w1)) \<longleftrightarrow>
            check_id3_tag_presence filename \<and>
            (\<exists>fp. fopen_rb w filename = Some fp \<and> 10 \<le> length fp \<and> take 3 fp = ''ID3'' \<and>
               frames_read fp (10 + tag_size (take 10 fp)) 10 \<noteq> None))"
proof (intro conjI)
  have "w1 = call w (OpenRead filename)"
    if "read_id3_tags w filename = Some (Inr data, w1)" for data w1
    using that by (auto simp add: read_id3_tags_def Let_def split: if_splits option.splits)
  then show "case read_id3_tags w filename of
            None \<Rightarrow> edit_tag w filename tag val = None
          | Some (Inl e, w1) \<Rightarrow>
              edit_tag w filename tag val = Some (Inl (FailedToReadTags e), w1) \<and>
              files w1 = files w \<and>
              (calls w1 = calls w \<or> calls w1 = calls w @ [OpenRead filename])
          | Some (Inr data, w1) \<Rightarrow>
              edit_tag w filename tag val = Some (Inl UnknownTag, w1) \<and>
              files w1 = files w \<and> calls w1 = calls w @ [OpenRead filename]"
    using assms read_id3_tags_world [of w filename]
    by (auto simp add: edit_tag_def split: option.splits sum.splits)
next
  show "(\<exists>data w1. read_id3_tags w filename = Some (Inr data, w1)) \<longleftrightarrow>
            check_id3_tag_presence filename \<and>
            (\<exists>fp. fopen_rb w filename = Some fp \<and> 10 \<le> length fp \<and> take 3 fp = ''ID3'' \<and>
               frames_read fp (10 + tag_size (take 10 fp)) 10 \<noteq> None)"
    by (rule read_id3_tags_record)
qed

theorem edit_unknown_field_witness:
  "''publisher'' \<notin> {''title'', ''artist'', ''album'', ''year'', ''comment'', ''genre''} \<and>
   edit_tag (plain_world [''song.mp3'' \<mapsto> twice_cut_file]) ''song.mp3'' ''publisher'' ''ACME'' =
     Some (Inl UnknownTag,
           call (plain_world [''song.mp3'' \<mapsto> twice_cut_file]) (OpenRead ''song.mp3''))"
  using edit_unknown_field [of "''publisher''" "plain_world [''song.mp3'' \<mapsto> twice_cut_file]"
      "''song.mp3''" "''ACME''", THEN conjunct1]
    read_twice_cut_file [of "''song.mp3''" "plain_world [''song.mp3'' \<mapsto> twice_cut_file]"]
  by (simp add: check_id3_tag_presence_def)

theorem edit_unknown_field_counterexample:
  "''publisher'' \<notin> {''title'', ''artist'', ''album'', ''year'', ''comment'', ''genre''} \<and>
   map_option fst
     (edit_tag (plain_world [''noise.mp3'' \<mapsto> ''not a tag at all'']) ''noise.mp3''
        ''publisher'' ''ACME'') = Some (Inl (FailedToReadTags NoID3Tag)) \<and>
   map_option fst
     (edit_tag (plain_world [''noise.mp3'' \<mapsto> ''not a tag at all'']) ''noise.mp3''
        ''publisher'' ''ACME'') \<noteq> Some (Inl UnknownTag)"
  by (simp add: edit_tag_def read_id3_tags_def check_id3_tag_presence_def fread_def Let_def)

section \<open>Writing and reading back\<close>

lemma six_x_fits: "tag_fits six_x_tag"
  by (simp add: tag_fits_def field_fits_def six_x_tag_def INT_MAX_def)

lemma write_six_x:
  assumes "10 \<le> length orig"
  shows "write_id3_tags (plain_world [''a.mp3'' \<mapsto> orig]) ''a.mp3'' six_x_tag =
    Some (Inr (),
      replaced (plain_world [''a.mp3'' \<mapsto> orig]) ''a.mp3'' (rewritten orig six_x_tag))"
  using six_x_fits check_a_mp3 _ _ assms
  by (rule write_plain_world) (simp_all add: temp_name_def)

text \<open>
  Claim C1, as the code has it. The writer copies the header of the original file, so
  what the reader finds afterwards depends on that header. Let a write of a record with
  all six fields set succeed, the values free of zero bytes and the genre shorter than
  \<open>INT_MAX\<close>. If the original starts with \<open>ID3\<close>, the size its header declares is
  larger than the five frames before the genre frame (so that frame starts inside the
  tag), and either that size ends with the six frames or what follows them (the original
  from offset 300) has fewer than ten bytes or starts with a zero byte, then
  \<open>read_id3_tags\<close> on the same file succeeds and returns the six values.
  Without the conditions on the header the round trip fails: with a declared size of 0
  the reader returns no field at all.
\<close>

theorem round_trip:
  assumes "write_id3_tags w filename data = Some (Inr (), w')"
    and "files w filename = Some orig"
    and "title data = Some t" and "artist data = Some a" and "album data = Some al"
    and "year data = Some y" and "comment data = Some c" and "genre data = Some g"
    and "NUL \<notin> set t \<union> set a \<union> set al \<union> set y \<union> set c \<union> set g"
    and "length g < INT_MAX"
    and "take 3 orig = ''ID3''"
    and "50 + length t + length a + length al + length y + length c < tag_size (take 10 orig)"
    and "tag_size (take 10 orig) \<le>
           60 + length t + length a + length al + length y + length c + length g \<or>
         length (drop 300 orig) < 10 \<or> drop 300 orig ! 0 = NUL"
  shows "\<exists>r w''. read_id3_tags w' filename = Some (Inr r, w'') \<and>
           title r = Some t \<and> artist r = Some a \<and> album r = Some al \<and>
           year r = Some y \<and> comment r = Some c \<and> genre r = Some g"
proof -
  let ?fs = "[(''TIT2'', t), (''TPE1'', a), (''TALB'', al), (''TYER'', y), (''COMM'', c),
              (''TCON'', g)]"
  let ?new = "rewritten orig data"
  note ws = write_id3_tags_success [OF assms(1,2)]
  have w': "w' = replaced w filename ?new" by (rule ws(5))
  have op: "fopen_rb w' filename = Some ?new"
    using ws(2) by (simp add: w')
  have new: "?new = take 10 orig @ concat (map (\<lambda>(i, b). frame_bytes i b) ?fs) @ drop 300 orig"
    by (simp add: rewritten_def assms(3-8) frame_bytes_spec_frame)
  have t10: "take 10 ?new = take 10 orig" and d10: "drop 10 ?new =
      concat (map (\<lambda>(i, b). frame_bytes i b) ?fs) @ drop 300 orig"
    and len: "10 \<le> length ?new" and magic: "take 3 ?new = ''ID3''"
    unfolding new using ws(3) assms(11) by (simp_all add: min_def)
  have S: "tag_size (take 10 orig) < 2 ^ 28" by (rule tag_size_less)
  then have small: "length t < INT_MAX" "length a < INT_MAX" "length al < INT_MAX"
    "length y < INT_MAX" "length c < INT_MAX"
    using assms(12) by (simp_all add: INT_MAX_def)
  have ok: "\<forall>(i, b) \<in> set ?fs. length i = 4 \<and> i ! 0 \<noteq> NUL \<and> length b < INT_MAX"
    using small assms(10) by (simp add: NUL_def)
  have L5: "?fs \<noteq> [] \<longrightarrow> length (concat (map (\<lambda>(i, b). frame_bytes i b) (butlast ?fs)))
      < tag_size (take 10 ?new)"
    unfolding t10 using assms(12) by (simp add: length_frame_bytes)
  have L6: "tag_size (take 10 ?new) \<le> length (concat (map (\<lambda>(i, b). frame_bytes i b) ?fs)) \<or>
      length (drop 300 orig) < 10 \<or> drop 300 orig ! 0 = NUL"
    unfolding t10 using assms(13) by (simp add: length_frame_bytes add.assoc)
  have "read_id3_tags w' filename =
      Some (Inr (foldl (\<lambda>a (i, b). store_frame i b a)
        (create_tag_data\<lparr>version := Some (version_string (?new ! 3) (?new ! 4))\<rparr>) ?fs),
        call w' (OpenRead filename))"
    using ws(1) op len magic d10 ok L5 L6 by (rule read_frames_file)
  then show ?thesis
    using assms(9) by (simp only: store_six) (simp add: c_str_clean)
qed

theorem round_trip_witness:
  "\<exists>r w''.
     read_id3_tags
       (replaced (plain_world [''a.mp3'' \<mapsto> roomy_tag_file]) ''a.mp3''
          (rewritten roomy_tag_file six_x_tag)) ''a.mp3'' = Some (Inr r, w'') \<and>
     title r = Some ''x'' \<and> artist r = Some ''x'' \<and> album r = Some ''x'' \<and>
     year r = Some ''x'' \<and> comment r = Some ''x'' \<and> genre r = Some ''x''"
proof -
  have h1: "write_id3_tags (plain_world [''a.mp3'' \<mapsto> roomy_tag_file]) ''a.mp3'' six_x_tag =
    Some (Inr (),
      replaced (plain_world [''a.mp3'' \<mapsto> roomy_tag_file]) ''a.mp3''
        (rewritten roomy_tag_file six_x_tag))"
    by (rule write_six_x) (simp add: roomy_tag_file_def)
  have h2: "files (plain_world [''a.mp3'' \<mapsto> roomy_tag_file]) ''a.mp3'' = Some roomy_tag_file"
    by simp
  have sz: "tag_size (take 10 roomy_tag_file) = 66"
    by (simp add: roomy_tag_file_def tag_size_def)
  show ?thesis
    by (rule round_trip [OF h1 h2, of "''x''" "''x''" "''x''" "''x''" "''x''" "''x''"])
       (simp_all add: six_x_tag_def NUL_def INT_MAX_def sz, simp add: roomy_tag_file_def)
qed

theorem round_trip_counterexample:
  "title six_x_tag = Some ''x'' \<and> artist six_x_tag = Some ''x'' \<and>
   album six_x_tag = Some ''x'' \<and> year six_x_tag = Some ''x'' \<and>
   comment six_x_tag = Some ''x'' \<and> genre six_x_tag = Some ''x'' \<and>
   write_id3_tags (plain_world [''a.mp3'' \<mapsto> empty_tag_file]) ''a.mp3'' six_x_tag =
     Some (Inr (),
       replaced (plain_world [''a.mp3'' \<mapsto> empty_tag_file]) ''a.mp3''
         (rewritten empty_tag_file six_x_tag)) \<and>
   map_option fst
     (read_id3_tags
        (replaced (plain_world [''a.mp3'' \<mapsto> empty_tag_file]) ''a.mp3''
           (rewritten empty_tag_file six_x_tag)) ''a.mp3'') =
     Some (Inr \<lparr>version = Some ''ID3v2.3.0'', title = None, artist = None, album = None,
       year = None, comment = None, genre = None\<rparr>)"
proof -
  let ?w' = "replaced (plain_world [''a.mp3'' \<mapsto> empty_tag_file]) ''a.mp3''
         (rewritten empty_tag_file six_x_tag)"
  have h1: "write_id3_tags (plain_world [''a.mp3'' \<mapsto> empty_tag_file]) ''a.mp3'' six_x_tag =
     Some (Inr (), ?w')"
    by (rule write_six_x) (simp add: empty_tag_file_def)
  have op: "fopen_rb ?w' ''a.mp3'' = Some (rewritten empty_tag_file six_x_tag)"
    by (simp add: plain_world_def)
  have t10: "take 10 (rewritten empty_tag_file six_x_tag) = empty_tag_file"
    by (simp add: rewritten_def empty_tag_file_def)
  have "read_id3_tags ?w' ''a.mp3'' =
    Some (Inr \<lparr>version = Some (version_string (rewritten empty_tag_file six_x_tag ! 3)
        (rewritten empty_tag_file six_x_tag ! 4)), title = None,
      artist = None, album = None, year = None, comment = None, genre = None\<rparr>,
      call ?w' (OpenRead ''a.mp3''))"
    using check_a_mp3 op
    by (rule read_no_frames)
       (simp_all add: t10, simp_all add: rewritten_def empty_tag_file_def tag_size_def)
  moreover have "version_string (rewritten empty_tag_file six_x_tag ! 3)
        (rewritten empty_tag_file six_x_tag ! 4) = ''ID3v2.3.0''"
    by (simp add: rewritten_def empty_tag_file_def version_string_def dec.simps char_of_digits)
  ultimately show ?thesis
    using h1 by (simp add: six_x_tag_def)
qed

end
